theory Spec2Isabelle
  imports Complex_Main "HOL-Library.Multiset" "HOL-Library.List_Lexorder" "HOL-Library.Char_ord"
begin

section \<open>Text: characters, lines and tokens\<close>

text \<open>
  The queue files (scanner.txt, watchlist.txt, openpositions.txt) and the alert texts are
  ASCII text. A Python \<^verbatim>\<open>str\<close> is a \<^typ>\<open>string\<close>; the character
  classes below are those of \<^verbatim>\<open>str.isspace\<close>, \<^verbatim>\<open>str.upper\<close>,
  \<^verbatim>\<open>str.lower\<close> and the regular expression classes \<^verbatim>\<open>[A-Z]\<close> and
  \<^verbatim>\<open>\w\<close> on code points below 128. A file that does not exist is \<open>None\<close>;
  the content of an existing file is the text Python reads from it (line ends are
  \<^verbatim>\<open>\n\<close>).
\<close>

definition ord :: "char \<Rightarrow> nat" where
  "ord c = of_char c"

definition is_space :: "char \<Rightarrow> bool" where
  "is_space c = (ord c = 32 \<or> (9 \<le> ord c \<and> ord c \<le> 13) \<or> (28 \<le> ord c \<and> ord c \<le> 31))"

definition is_upper :: "char \<Rightarrow> bool" where
  "is_upper c = (65 \<le> ord c \<and> ord c \<le> 90)"

definition is_lower :: "char \<Rightarrow> bool" where
  "is_lower c = (97 \<le> ord c \<and> ord c \<le> 122)"

definition is_digit :: "char \<Rightarrow> bool" where
  "is_digit c = (48 \<le> ord c \<and> ord c \<le> 57)"

text \<open>The class \<^verbatim>\<open>\w\<close>: letters, digits and the underscore.\<close>

definition is_word :: "char \<Rightarrow> bool" where
  "is_word c = (is_upper c \<or> is_lower c \<or> is_digit c \<or> ord c = 95)"

text \<open>Upper and lower case differ in the bit of weight 32.\<close>

definition to_upper :: "char \<Rightarrow> char" where
  "to_upper c = (if is_lower c
     then (case c of Char b0 b1 b2 b3 b4 b5 b6 b7 \<Rightarrow> Char b0 b1 b2 b3 b4 False b6 b7)
     else c)"

definition to_lower :: "char \<Rightarrow> char" where
  "to_lower c = (if is_upper c
     then (case c of Char b0 b1 b2 b3 b4 b5 b6 b7 \<Rightarrow> Char b0 b1 b2 b3 b4 True b6 b7)
     else c)"

definition str_upper :: "string \<Rightarrow> string" where
  "str_upper s = map to_upper s"

definition str_lower :: "string \<Rightarrow> string" where
  "str_lower s = map to_lower s"

text \<open>\<^verbatim>\<open>s.strip()\<close>: leading and trailing whitespace removed.\<close>

definition str_strip :: "string \<Rightarrow> string" where
  "str_strip s = rev (dropWhile is_space (rev (dropWhile is_space s)))"

text \<open>
  \<^verbatim>\<open>s.split()\<close>: the maximal runs of non-whitespace characters, in order. The first
  argument is the token being read.
\<close>

fun split_from :: "string \<Rightarrow> string \<Rightarrow> string list" where
  "split_from tok [] = (if tok = [] then [] else [tok])"
| "split_from tok (c # cs) =
     (if is_space c
      then (if tok = [] then split_from [] cs else tok # split_from [] cs)
      else split_from (tok @ [c]) cs)"

definition str_split :: "string \<Rightarrow> string list" where
  "str_split s = split_from [] s"

text \<open>
  Iterating over an open text file, and \<^verbatim>\<open>f.readlines()\<close>: the lines of the file,
  each with its line end; only the last line may lack one. The first argument is the
  line being read.
\<close>

fun readlines_from :: "string \<Rightarrow> string \<Rightarrow> string list" where
  "readlines_from cur [] = (if cur = [] then [] else [cur])"
| "readlines_from cur (c # cs) =
     (if c = CHR 0x0A then (cur @ [c]) # readlines_from [] cs
      else readlines_from (cur @ [c]) cs)"

definition readlines :: "string \<Rightarrow> string list" where
  "readlines s = readlines_from [] s"

text \<open>\<^verbatim>\<open>f.writelines(lines)\<close> on a file opened with mode \<^verbatim>\<open>w\<close>.\<close>

definition writelines :: "string list \<Rightarrow> string" where
  "writelines ls = concat ls"


section \<open>The state of the pipeline\<close>

text \<open>
  The three queue files are shared state; \<open>open_positions\<close> is the attribute
  \<^verbatim>\<open>self.open_positions\<close> of \<^verbatim>\<open>ScannerProcessor\<close>. Every write to a queue file
  and every request to the market-data provider is recorded in \<open>trace\<close>, oldest first.
\<close>

datatype event =
    Write_scanner string
  | Append_watchlist string
  | Fetch_history string nat

record world =
  scanner_file :: "string option"
  watchlist_file :: "string option"
  open_positions :: "string set"
  trace :: "event list"


section \<open>Queue store (screener.py)\<close>

text \<open>
  \<^verbatim>\<open>_load_symbols\<close>: the upper-cased first token of every line that is not blank.
\<close>

definition load_symbols :: "string \<Rightarrow> string set" where
  "load_symbols content =
     set (map (\<lambda>line. str_upper (hd (str_split line)))
            (filter (\<lambda>line. str_strip line \<noteq> [] \<and> str_split line \<noteq> []) (readlines content)))"

text \<open>
  \<^verbatim>\<open>_remove_ticker_from_scanner\<close>: opening a file that does not exist raises, the
  handler logs, and nothing is written.
\<close>

definition remove_ticker_from_scanner :: "string \<Rightarrow> world \<Rightarrow> world" where
  "remove_ticker_from_scanner ticker_to_remove w =
     (case scanner_file w of
        None \<Rightarrow> w
      | Some content \<Rightarrow>
          let remaining_lines =
                filter (\<lambda>line. str_strip line \<noteq> [] \<and>
                          str_upper (hd (str_split (str_strip line))) \<noteq> str_upper ticker_to_remove)
                       (readlines content);
              new_content = writelines remaining_lines
          in w\<lparr>scanner_file := Some new_content,
                 trace := trace w @ [Write_scanner new_content]\<rparr>)"


text \<open>
  \<^verbatim>\<open>update_scanner_file\<close> (screener.py) and \<^verbatim>\<open>overwrite_results_file\<close>
  (mailreader.py) have the same body. The existing lines and the new tickers are merged
  in a Python set and written back in the iteration order of that set, which Python
  does not specify: \<open>order\<close> is that enumeration.
\<close>

definition update_scanner_file :: "(string set \<Rightarrow> string list) \<Rightarrow> string list \<Rightarrow> world \<Rightarrow> world" where
  "update_scanner_file order tickers w =
     (let existing_tickers =
            (case scanner_file w of
               None \<Rightarrow> {}
             | Some content \<Rightarrow> set (map str_strip (readlines content)));
          updated_tickers = existing_tickers \<union> set tickers;
          new_content = concat (map (\<lambda>ticker. ticker @ [CHR 0x0A]) (order updated_tickers))
      in w\<lparr>scanner_file := Some new_content,
             trace := trace w @ [Write_scanner new_content]\<rparr>)"

text \<open>
  \<^verbatim>\<open>get_first_ticker_from_scanner\<close>. The loop runs over the lines read when the file
  was opened (a queue file fits the read buffer), while each removal rewrites the
  file on disk.
\<close>

fun scan_scanner_lines :: "string list \<Rightarrow> world \<Rightarrow> string option \<times> world" where
  "scan_scanner_lines [] w = (None, w)"
| "scan_scanner_lines (l # ls) w =
     (let line = str_strip l in
      if line = [] then scan_scanner_lines ls w
      else
        let ticker = str_upper (hd (str_split line)) in
        if ticker \<notin> open_positions w then (Some ticker, w)
        else scan_scanner_lines ls (remove_ticker_from_scanner ticker w))"

definition get_first_ticker_from_scanner :: "world \<Rightarrow> string option \<times> world" where
  "get_first_ticker_from_scanner w =
     (case scanner_file w of
        None \<Rightarrow> (None, w)
      | Some content \<Rightarrow> scan_scanner_lines (readlines content) w)"

text \<open>The format \<^verbatim>\<open>:.2f\<close>: two decimals, ties to even, a sign for negative values.\<close>

definition digit_char :: "nat \<Rightarrow> char" where
  "digit_char d = ''0123456789'' ! (d mod 10)"

fun digits :: "nat \<Rightarrow> string" where
  "digits n = (if n < 10 then [digit_char n] else digits (n div 10) @ [digit_char n])"

declare digits.simps [simp del]

definition round_half_even :: "real \<Rightarrow> int" where
  "round_half_even x =
     (let f = \<lfloor>x\<rfloor>; d = x - of_int f in
      if d < 1 / 2 then f else if 1 / 2 < d then f + 1 else if even f then f else f + 1)"

definition format_2f :: "real \<Rightarrow> string" where
  "format_2f x =
     (let n = nat (round_half_even (\<bar>x\<bar> * 100)) in
      (if x < 0 then ''-'' else []) @ digits (n div 100) @ ''.'' @
      [digit_char (n div 10), digit_char n])"

definition get_watchlist_symbols :: "world \<Rightarrow> string set" where
  "get_watchlist_symbols w =
     (case watchlist_file w of None \<Rightarrow> {} | Some content \<Rightarrow> load_symbols content)"

text \<open>\<^verbatim>\<open>add_to_watchlist\<close>: mode \<^verbatim>\<open>a\<close> creates the file when it does not exist.\<close>

definition add_to_watchlist :: "string \<Rightarrow> real \<Rightarrow> world \<Rightarrow> world" where
  "add_to_watchlist symbol low_price w =
     (if symbol \<in> get_watchlist_symbols w then w
      else
        let line = symbol @ '' '' @ format_2f low_price @ [CHR 0x0A];
            old_content = (case watchlist_file w of None \<Rightarrow> [] | Some content \<Rightarrow> content)
        in w\<lparr>watchlist_file := Some (old_content @ line),
               trace := trace w @ [Append_watchlist line]\<rparr>)"


section \<open>Ticker extractor (screener.py, mailreader.py)\<close>

text \<open>\<^verbatim>\<open>sub in s\<close>: \<open>sub\<close> occurs in \<open>s\<close> as a contiguous piece.\<close>

fun contains :: "string \<Rightarrow> string \<Rightarrow> bool" where
  "contains sub [] = (sub = [])"
| "contains sub (c # cs) = (take (length sub) (c # cs) = sub \<or> contains sub cs)"

text \<open>
  \<^verbatim>\<open>re.findall(r'\b[A-Z]{1,5}\b', text)\<close>. The engine scans from the left. At a
  position, with the character before it and the rest of the text, \<^verbatim>\<open>\b\<close> holds
  when exactly one of the two neighbours is a word character; \<^verbatim>\<open>[A-Z]{1,5}\<close> is
  greedy, so the lengths are tried from 5 down to 1. After a match of length \<open>k\<close> the
  scan resumes at its end: the first argument of \<open>findall_from\<close> counts the characters
  of the match still to pass.
\<close>

fun word_at :: "char option \<Rightarrow> bool" where
  "word_at None = False"
| "word_at (Some c) = is_word c"

definition boundary :: "char option \<Rightarrow> char option \<Rightarrow> bool" where
  "boundary before after = (word_at before \<noteq> word_at after)"

definition head :: "string \<Rightarrow> char option" where
  "head s = (case s of [] \<Rightarrow> None | c # cs \<Rightarrow> Some c)"

definition try_length :: "string \<Rightarrow> nat \<Rightarrow> bool" where
  "try_length s k =
     (0 < k \<and> k \<le> length s \<and> list_all is_upper (take k s) \<and>
      boundary (Some (last (take k s))) (head (drop k s)))"

definition match_ticker :: "char option \<Rightarrow> string \<Rightarrow> nat option" where
  "match_ticker before s =
     (if boundary before (head s) then find (try_length s) [5, 4, 3, 2, 1] else None)"

fun findall_from :: "nat \<Rightarrow> char option \<Rightarrow> string \<Rightarrow> string list" where
  "findall_from inside before [] = []"
| "findall_from (Suc inside) before (c # cs) = findall_from inside (Some c) cs"
| "findall_from 0 before (c # cs) =
     (case match_ticker before (c # cs) of
        Some k \<Rightarrow> take k (c # cs) # findall_from (k - 1) (Some c) cs
      | None \<Rightarrow> findall_from 0 (Some c) cs)"

definition findall_tickers :: "string \<Rightarrow> string list" where
  "findall_tickers text = findall_from 0 None text"

definition excluded_words :: "string list" where
  "excluded_words = [''ALERT'', ''NEW'', ''SYMBOL'', ''WAS'', ''ADDED'', ''TO'', ''BBAUTO'',
     ''FROM'', ''THE'', ''IN'', ''AT'', ''ON'', ''BY'', ''FOR'', ''WITH'']"

definition extract_ticker_symbols :: "string \<Rightarrow> string list" where
  "extract_ticker_symbols text =
     (if \<not> contains ''bbauto'' (str_lower text) then []
      else filter (\<lambda>ticker. ticker \<notin> set excluded_words) (findall_tickers text))"


section \<open>Technical validator (screener.py)\<close>

text \<open>
  A row of the price history. Prices are real numbers: the rounding of floating-point
  arithmetic and NaN values in the downloaded data are not modelled. A NaN that pandas
  itself produces (a rolling window that is not full yet) is \<open>None\<close>.
\<close>

record bar =
  bar_open :: real
  bar_high :: real
  bar_low :: real
  bar_close :: real

text \<open>
  The market-data provider: what \<^verbatim>\<open>yf.Ticker(symbol).history(period="6mo")\<close> does
  at the given attempt.
\<close>

datatype fetch_result = History "bar list" | Socket_timeout | Fetch_error

type_synonym market = "string \<Rightarrow> nat \<Rightarrow> fetch_result"

definition max_retries :: nat where
  "max_retries = 2"

text \<open>
  \<^verbatim>\<open>download_historical_data\<close>: the loop over \<^verbatim>\<open>range(max_retries)\<close>, with the
  number of attempts left.
\<close>

fun download_attempts :: "market \<Rightarrow> string \<Rightarrow> nat \<Rightarrow> nat \<Rightarrow> world \<Rightarrow> bar list option \<times> world" where
  "download_attempts market symbol 0 attempt w = (None, w)"
| "download_attempts market symbol (Suc left) attempt w =
     (let w' = w\<lparr>trace := trace w @ [Fetch_history symbol attempt]\<rparr> in
      case market symbol attempt of
        History df \<Rightarrow> (if df = [] then (None, w') else (Some df, w'))
      | Socket_timeout \<Rightarrow>
          (if attempt < max_retries - 1 then download_attempts market symbol left (Suc attempt) w'
           else (None, w'))
      | Fetch_error \<Rightarrow>
          (if attempt < max_retries - 1 then download_attempts market symbol left (Suc attempt) w'
           else (None, w')))"

definition download_historical_data :: "market \<Rightarrow> string \<Rightarrow> world \<Rightarrow> bar list option \<times> world" where
  "download_historical_data market symbol w = download_attempts market symbol max_retries 0 w"

text \<open>
  \<^verbatim>\<open>Series.ewm(span=period, adjust=False).mean()\<close>: the first value seeds the
  recurrence \<open>y\<^sub>t = (1 - \<alpha>) y\<^sub>t\<^sub>-\<^sub>1 + \<alpha> x\<^sub>t\<close> with \<open>\<alpha> = 2 / (period + 1)\<close>.
\<close>

fun ewm_from :: "real \<Rightarrow> real \<Rightarrow> real list \<Rightarrow> real list" where
  "ewm_from alpha y [] = []"
| "ewm_from alpha y (x # xs) =
     (let y' = (1 - alpha) * y + alpha * x in y' # ewm_from alpha y' xs)"

fun ewm_mean :: "nat \<Rightarrow> real list \<Rightarrow> real list" where
  "ewm_mean period [] = []"
| "ewm_mean period (x # xs) = x # ewm_from (2 / (real period + 1)) x xs"

text \<open>\<^verbatim>\<open>calculate_ema\<close>: pandas refuses a span below 1, and the handler returns None.\<close>

definition calculate_ema :: "bar list \<Rightarrow> nat \<Rightarrow> real list option" where
  "calculate_ema df period =
     (if length df < period then None
      else if period < 1 then None
      else Some (ewm_mean period (map bar_close df)))"

text \<open>
  \<^verbatim>\<open>Series.rolling(window=period)\<close>: the window ending at row \<open>i\<close>, when it is full;
  \<^verbatim>\<open>mean()\<close> and the sample standard deviation \<^verbatim>\<open>std()\<close> of a window.
\<close>

definition rolling :: "nat \<Rightarrow> (real list \<Rightarrow> real option) \<Rightarrow> real list \<Rightarrow> real option list" where
  "rolling period f xs =
     map (\<lambda>i. if i + 1 < period then None else f (take period (drop (i + 1 - period) xs)))
         [0 ..< length xs]"

definition window_mean :: "real list \<Rightarrow> real option" where
  "window_mean ws = (if ws = [] then None else Some (sum_list ws / real (length ws)))"

definition window_std :: "real list \<Rightarrow> real option" where
  "window_std ws =
     (if length ws < 2 then None
      else
        let m = sum_list ws / real (length ws) in
        Some (sqrt (sum_list (map (\<lambda>x. (x - m)\<^sup>2) ws) / real (length ws - 1))))"

record bands =
  middle :: "real option list"
  upper :: "real option list"
  lower :: "real option list"

text \<open>\<^verbatim>\<open>calculate_bollinger_bands\<close>: on an empty frame the last value of a band cannot be
  read, and the handler returns None.\<close>

definition band :: "(real \<Rightarrow> real \<Rightarrow> real) \<Rightarrow> real option \<Rightarrow> real option \<Rightarrow> real option" where
  "band f m s = (case (m, s) of (Some a, Some b) \<Rightarrow> Some (f a b) | _ \<Rightarrow> None)"

definition calculate_bollinger_bands :: "bar list \<Rightarrow> nat \<Rightarrow> nat \<Rightarrow> bands option" where
  "calculate_bollinger_bands df period std_dev =
     (if length df < period then None
      else if df = [] then None
      else
        let middle_band = rolling period window_mean (map bar_close df);
            std = rolling period window_std (map bar_close df);
            upper_band = map2 (band (\<lambda>m s. m + s * real std_dev)) middle_band std;
            lower_band = map2 (band (\<lambda>m s. m - s * real std_dev)) middle_band std
        in Some \<lparr>middle = middle_band, upper = upper_band, lower = lower_band\<rparr>)"

text \<open>
  \<^verbatim>\<open>calculate_bars_since_crossover\<close>. The loop \<^verbatim>\<open>for i in range(len(above) - 1, 0, -1)\<close>
  is \<open>crossover_scan is_above (length is_above - 1)\<close>; an empty series or two series of
  different lengths raise, and the handler returns None.
\<close>

fun crossover_scan :: "bool list \<Rightarrow> nat \<Rightarrow> nat" where
  "crossover_scan is_above 0 = length is_above"
| "crossover_scan is_above (Suc j) =
     (if \<not> is_above ! j \<and> is_above ! Suc j then length is_above - Suc j
      else if \<not> is_above ! j then length is_above - Suc j
      else crossover_scan is_above j)"

definition calculate_bars_since_crossover :: "real list \<Rightarrow> real list \<Rightarrow> nat option" where
  "calculate_bars_since_crossover ema_21_series ema_100_series =
     (if length ema_21_series \<noteq> length ema_100_series then None
      else
        let is_above = map2 (\<lambda>a b. a > b) ema_21_series ema_100_series in
        if is_above = [] then None
        else if \<not> last is_above then None
        else Some (crossover_scan is_above (length is_above - 1)))"

text \<open>The dictionary of validation values (without the date of the bar); the empty
  dictionary is \<open>None\<close>.\<close>

record validation_values =
  ema_21 :: real
  ema_100 :: real
  bb_upper :: "real option"
  bb_middle :: "real option"
  current_price :: real
  current_open :: real
  low_price :: real
  bars_since_crossover :: "nat option"
  ema_check :: bool
  bullish_bar :: bool
  above_bb_upper :: bool

text \<open>A comparison with NaN is false.\<close>

definition greater_than :: "real \<Rightarrow> real option \<Rightarrow> bool" where
  "greater_than x y = (case y of None \<Rightarrow> False | Some v \<Rightarrow> x > v)"

text \<open>\<^verbatim>\<open>validate_ema_criteria\<close>, after the download.\<close>

definition validate_history :: "bar list option \<Rightarrow> bool \<times> validation_values option" where
  "validate_history data =
     (case data of
        None \<Rightarrow> (False, None)
      | Some df \<Rightarrow>
          (case (calculate_ema df 21, calculate_ema df 100) of
             (Some ema_21_series, Some ema_100_series) \<Rightarrow>
               (case calculate_bollinger_bands df 20 2 of
                  None \<Rightarrow> (False, None)
                | Some bb_bands \<Rightarrow>
                    let ema_21' = last ema_21_series;
                        ema_100' = last ema_100_series;
                        bb_upper' = last (upper bb_bands);
                        bb_middle' = last (middle bb_bands);
                        current_close = bar_close (last df);
                        current_open' = bar_open (last df);
                        current_low = bar_low (last df);
                        ema_check' = (ema_21' > ema_100');
                        bullish_bar' = (current_close > current_open');
                        above_bb_upper' = greater_than current_close bb_upper';
                        is_valid = (ema_check' \<and> bullish_bar' \<and> above_bb_upper');
                        bars_since_crossover' =
                          (if ema_check'
                           then calculate_bars_since_crossover ema_21_series ema_100_series
                           else None)
                    in (is_valid,
                        Some \<lparr>ema_21 = ema_21', ema_100 = ema_100',
                              bb_upper = bb_upper', bb_middle = bb_middle',
                              current_price = current_close, current_open = current_open',
                              low_price = current_low,
                              bars_since_crossover = bars_since_crossover',
                              ema_check = ema_check', bullish_bar = bullish_bar',
                              above_bb_upper = above_bb_upper'\<rparr>))
           | _ \<Rightarrow> (False, None)))"

definition validate_ema_criteria :: "market \<Rightarrow> string \<Rightarrow> world \<Rightarrow> (bool \<times> validation_values option) \<times> world" where
  "validate_ema_criteria market symbol w =
     (let (df, w') = download_historical_data market symbol w
      in (validate_history df, w'))"


section \<open>Pipeline orchestrator (screener.py)\<close>

text \<open>\<^verbatim>\<open>process_next_ticker\<close>; \<^verbatim>\<open>ema_values.get('low_price', 0)\<close> is 0 for the
  empty dictionary.\<close>

definition process_next_ticker :: "market \<Rightarrow> world \<Rightarrow> world" where
  "process_next_ticker market w =
     (case get_first_ticker_from_scanner w of
        (None, w1) \<Rightarrow> w1
      | (Some ticker, w1) \<Rightarrow>
          let ((is_valid, ema_values), w2) = validate_ema_criteria market ticker w1 in
          if is_valid then
            let low_price' = (case ema_values of None \<Rightarrow> 0 | Some v \<Rightarrow> low_price v)
            in remove_ticker_from_scanner ticker (add_to_watchlist ticker low_price' w2)
          else remove_ticker_from_scanner ticker w2)"

text \<open>
  \<^verbatim>\<open>check_email_for_tickers\<close>: \<open>contents\<close> are the texts (subject, a space, body) of
  the messages handled before the check ends or fails.
\<close>

fun check_email_for_tickers :: "(string set \<Rightarrow> string list) \<Rightarrow> string list \<Rightarrow> world \<Rightarrow> world" where
  "check_email_for_tickers order [] w = w"
| "check_email_for_tickers order (full_content # contents) w =
     (let tickers = extract_ticker_symbols full_content in
      check_email_for_tickers order contents
        (if tickers \<noteq> [] then update_scanner_file order tickers w else w))"

text \<open>
  One pass of the loop of \<^verbatim>\<open>run\<close>. What the surroundings provide in that pass: the
  content of openpositions.txt (written by main.py), the messages of the mailbox, the
  iteration order of Python's sets and the market data.
\<close>

record cycle_input =
  positions_file :: "string option"
  messages :: "string list"
  set_order :: "string set \<Rightarrow> string list"
  market_data :: market

definition reload_positions :: "string option \<Rightarrow> world \<Rightarrow> world" where
  "reload_positions file w =
     (case file of
        None \<Rightarrow> w
      | Some content \<Rightarrow> w\<lparr>open_positions := load_symbols content\<rparr>)"

definition cycle :: "cycle_input \<Rightarrow> world \<Rightarrow> world" where
  "cycle inp w =
     process_next_ticker (market_data inp)
       (check_email_for_tickers (set_order inp) (messages inp)
          (reload_positions (positions_file inp) w))"

fun run :: "cycle_input list \<Rightarrow> world \<Rightarrow> world" where
  "run [] w = w"
| "run (inp # inps) w = run inps (cycle inp w)"


section \<open>Order dispatcher (main.py)\<close>

record order_payload =
  orderType :: string
  session :: string
  duration :: string
  orderStrategyType :: string
  price :: real
  instruction :: string
  quantity :: nat
  symbol :: string
  assetType :: string

definition create_limit_order :: "string \<Rightarrow> real \<Rightarrow> nat \<Rightarrow> order_payload" where
  "create_limit_order symbol' limit_price quantity' =
     \<lparr>orderType = ''LIMIT'', session = ''NORMAL'', duration = ''GOOD_TILL_CANCEL'',
      orderStrategyType = ''SINGLE'', price = limit_price, instruction = ''BUY'',
      quantity = quantity', symbol = symbol', assetType = ''EQUITY''\<rparr>"

text \<open>
  The brokerage client: the status code of the response to the \<open>n\<close>-th order of the
  sweep, or an exception. \<^verbatim>\<open>float\<close> is a parameter: \<open>None\<close> is its ValueError.
\<close>

datatype response = Status nat | Raised

type_synonym broker = "nat \<Rightarrow> order_payload \<Rightarrow> response"

datatype outcome = Placed | Rejected nat | Invalid_price | Failed

record attempt =
  entry :: string
  result :: outcome
  pause :: nat

fun sweep :: "(string \<Rightarrow> real option) \<Rightarrow> broker \<Rightarrow> nat \<Rightarrow> string list \<Rightarrow> attempt list" where
  "sweep to_float client n [] = []"
| "sweep to_float client n (l # ls) =
     (let line = str_strip l in
      if line = [] then sweep to_float client n ls
      else
        let parts = str_split line in
        if length parts < 2 then sweep to_float client n ls
        else
          let symbol' = str_upper (parts ! 0) in
          case to_float (parts ! 1) of
            None \<Rightarrow> \<lparr>entry = line, result = Invalid_price, pause = 10\<rparr> # sweep to_float client n ls
          | Some limit_price \<Rightarrow>
              (case client n (create_limit_order symbol' limit_price 1) of
                 Status code \<Rightarrow>
                   (if code \<in> set [200, 201]
                    then \<lparr>entry = line, result = Placed, pause = 3\<rparr>
                    else \<lparr>entry = line, result = Rejected code, pause = 10\<rparr>)
                   # sweep to_float client (Suc n) ls
               | Raised \<Rightarrow>
                   \<lparr>entry = line, result = Failed, pause = 10\<rparr> # sweep to_float client (Suc n) ls))"

text \<open>
  \<^verbatim>\<open>process_watchlist_orders\<close>: the new state of the watchlist file and the order
  attempts made, in order.
\<close>

definition process_watchlist_orders :: "(string \<Rightarrow> real option) \<Rightarrow> broker \<Rightarrow> string option \<Rightarrow> string option \<times> attempt list" where
  "process_watchlist_orders to_float client watchlist =
     (case watchlist of
        None \<Rightarrow> (None, [])
      | Some content \<Rightarrow>
          let lines = readlines content in
          if lines = [] then (Some content, [])
          else (Some [], sweep to_float client 0 lines))"


section \<open>Reference notions of the specification\<close>

text \<open>A blank line has only whitespace; the first token of a line is its first run of
  non-whitespace characters; two symbols match when they are equal up to letter case.\<close>

definition blank :: "string \<Rightarrow> bool" where
  "blank line = list_all is_space line"

definition first_token :: "string \<Rightarrow> string" where
  "first_token line = takeWhile (\<lambda>c. \<not> is_space c) (dropWhile is_space line)"

definition same_symbol :: "string \<Rightarrow> string \<Rightarrow> bool" where
  "same_symbol a b = (str_lower a = str_lower b)"


text \<open>The lines of the scanner queue; a queue whose file does not exist has none.\<close>

definition scanner_lines :: "world \<Rightarrow> string list" where
  "scanner_lines w = (case scanner_file w of None \<Rightarrow> [] | Some content \<Rightarrow> readlines content)"

text \<open>The lines that stay when a symbol is removed, in the words of the specification:
  the lines whose first token does not match the symbol.\<close>

definition claimed_remaining :: "string \<Rightarrow> string list \<Rightarrow> string list" where
  "claimed_remaining ticker ls = filter (\<lambda>line. \<not> same_symbol (first_token line) ticker) ls"

text \<open>A line as \<open>readlines\<close> yields it: not empty, with no line end before its last
  character; in a list of lines all but the last end with a line end.\<close>

definition line_ok :: "string \<Rightarrow> bool" where
  "line_ok l = (l \<noteq> [] \<and> CHR 0x0A \<notin> set (butlast l))"

fun lines_ok :: "string list \<Rightarrow> bool" where
  "lines_ok [] = True"
| "lines_ok [l] = line_ok l"
| "lines_ok (l # ls) = (line_ok l \<and> last l = CHR 0x0A \<and> lines_ok ls)"


text \<open>
  The indicators on the most recent bar, in the words of the specification: the
  exponential average is the smoothing recurrence with factor \<open>2 / (N + 1)\<close> seeded at
  the first close; the upper Bollinger band is the mean of the last 20 closes plus twice
  their sample standard deviation.
\<close>

definition ema_value :: "nat \<Rightarrow> real list \<Rightarrow> real" where
  "ema_value n closes =
     foldl (\<lambda>y x. (1 - 2 / (real n + 1)) * y + 2 / (real n + 1) * x) (hd closes) (tl closes)"

definition last_n :: "nat \<Rightarrow> 'a list \<Rightarrow> 'a list" where
  "last_n n xs = drop (length xs - n) xs"

definition mean :: "real list \<Rightarrow> real" where
  "mean xs = sum_list xs / real (length xs)"

definition sample_std :: "real list \<Rightarrow> real" where
  "sample_std xs = sqrt (sum_list (map (\<lambda>x. (x - mean xs)\<^sup>2) xs) / (real (length xs) - 1))"

definition upper_bollinger :: "real list \<Rightarrow> real" where
  "upper_bollinger closes = mean (last_n 20 closes) + 2 * sample_std (last_n 20 closes)"

definition three_checks :: "bar list \<Rightarrow> bool" where
  "three_checks df =
     (ema_value 21 (map bar_close df) > ema_value 100 (map bar_close df) \<and>
      bar_close (last df) > bar_open (last df) \<and>
      bar_close (last df) > upper_bollinger (map bar_close df))"

text \<open>The line of the watchlist for a symbol and a limit price.\<close>

definition watchlist_line :: "string \<Rightarrow> real \<Rightarrow> string" where
  "watchlist_line ticker limit_price = ticker @ '' '' @ format_2f limit_price @ [CHR 0x0A]"



text \<open>
  The age of the last crossover, in the words of the specification. Going back from
  the most recent bar, the last crossover is the first bar \<open>i\<close> on which EMA(21) is
  above EMA(100) while it was not on bar \<open>i - 1\<close>. Its age is measured from bar
  \<open>i - 1\<close>, the last bar before the crossing, to the most recent bar: a crossing on
  the most recent bar has age 1, and a series with no crossing has its length as age.
\<close>

definition last_crossover :: "bool list \<Rightarrow> nat option" where
  "last_crossover is_above =
     find (\<lambda>i. \<not> is_above ! (i - 1) \<and> is_above ! i) (rev [1 ..< length is_above])"

definition bars_since_last_crossover :: "bool list \<Rightarrow> nat" where
  "bars_since_last_crossover is_above =
     (case last_crossover is_above of
        Some i \<Rightarrow> length is_above - i
      | None \<Rightarrow> length is_above)"


text \<open>The entries of a watchlist file: the lines that hold a symbol and a limit price.\<close>

definition watchlist_entries :: "string \<Rightarrow> string list" where
  "watchlist_entries content = filter (\<lambda>line. 2 \<le> length (str_split line)) (readlines content)"






text \<open>
  The extraction in the words of the specification. A token of a text is a maximal run
  of word characters; a symbol token is a token of one to five characters, all capital
  letters. The reference result is the symbol tokens of the text that are no excluded
  words, each once, when the text holds the marker, and nothing otherwise.
\<close>

fun word_runs_from :: "string \<Rightarrow> string \<Rightarrow> string list" where
  "word_runs_from cur [] = (if cur = [] then [] else [cur])"
| "word_runs_from cur (c # cs) =
     (if is_word c then word_runs_from (cur @ [c]) cs
      else if cur = [] then word_runs_from [] cs
      else cur # word_runs_from [] cs)"

definition word_runs :: "string \<Rightarrow> string list" where
  "word_runs text = word_runs_from [] text"

definition is_symbol :: "string \<Rightarrow> bool" where
  "is_symbol t = (1 \<le> length t \<and> length t \<le> 5 \<and> list_all is_upper t)"

definition symbol_tokens :: "string \<Rightarrow> string list" where
  "symbol_tokens text = filter is_symbol (word_runs text)"

definition has_marker :: "string \<Rightarrow> bool" where
  "has_marker text = contains ''bbauto'' (str_lower text)"

definition reference_extract :: "string \<Rightarrow> string list" where
  "reference_extract text =
     (if has_marker text
      then remdups (filter (\<lambda>t. t \<notin> set excluded_words) (symbol_tokens text))
      else [])"


text \<open>The events of the trace that are requests to the market-data provider, those that
  are writes to a queue file, and those that rewrite the scanner file; the symbols the
  scanner queue names.\<close>

fun is_fetch :: "event \<Rightarrow> bool" where
  "is_fetch (Fetch_history s n) = True"
| "is_fetch e = False"

fun is_write :: "event \<Rightarrow> bool" where
  "is_write (Fetch_history s n) = False"
| "is_write e = True"

fun is_scanner_write :: "event \<Rightarrow> bool" where
  "is_scanner_write (Write_scanner content) = True"
| "is_scanner_write e = False"

definition scanner_symbols :: "world \<Rightarrow> string set" where
  "scanner_symbols w = (case scanner_file w of None \<Rightarrow> {} | Some content \<Rightarrow> load_symbols content)"

text \<open>The claim that every write of a cycle comes after the validation: in the trace
  of the cycle no write comes before a request to the market-data provider.\<close>

definition writes_after_validation :: "event list \<Rightarrow> bool" where
  "writes_after_validation events = list_all is_write (dropWhile is_fetch events)"


text \<open>
  A watchlist file is terminated when it is absent, empty or ends with a line end, as
  every file that \<^verbatim>\<open>add_to_watchlist\<close> and the dispatch sweep leave. The open
  positions stay the same in a cycle whose positions file, when it exists, names the
  same symbols.
\<close>

definition terminated :: "string option \<Rightarrow> bool" where
  "terminated file = (case file of None \<Rightarrow> True | Some content \<Rightarrow> content = [] \<or> last content = CHR 0x0A)"

definition positions_stay :: "string set \<Rightarrow> cycle_input \<Rightarrow> bool" where
  "positions_stay held inp =
     (case positions_file inp of None \<Rightarrow> True | Some content \<Rightarrow> load_symbols content = held)"


section \<open>Scenarios\<close>

text \<open>A history of 100 bars: 99 flat bars at 10, then a bar that opens at 10, falls to
  9.5 and closes at 20.\<close>

definition flat_bar :: bar where
  "flat_bar = \<lparr>bar_open = 10, bar_high = 10, bar_low = 10, bar_close = 10\<rparr>"

definition breakout_bar :: bar where
  "breakout_bar = \<lparr>bar_open = 10, bar_high = 20, bar_low = 19 / 2, bar_close = 20\<rparr>"

definition breakout_history :: "bar list" where
  "breakout_history = replicate 99 flat_bar @ [breakout_bar]"

definition breakout_market :: market where
  "breakout_market ticker attempt = History breakout_history"

definition short_market :: market where
  "short_market ticker attempt = History (replicate 99 breakout_bar)"

definition failing_market :: market where
  "failing_market ticker attempt = Socket_timeout"

definition aapl_held_msft_queued :: world where
  "aapl_held_msft_queued =
     \<lparr>scanner_file = Some ''AAPL\<newline>MSFT\<newline>'', watchlist_file = Some [],
      open_positions = {''AAPL''}, trace = []\<rparr>"

text \<open>Cycles with no mail, in which the positions file names the given symbols and the
  market data is the breakout history.\<close>

definition breakout_cycle :: "string \<Rightarrow> cycle_input" where
  "breakout_cycle positions =
     \<lparr>positions_file = Some positions, messages = [], set_order = sorted_list_of_set,
      market_data = breakout_market\<rparr>"

definition aapl_queued_holding :: "string set \<Rightarrow> world" where
  "aapl_queued_holding held =
     \<lparr>scanner_file = Some ''AAPL\<newline>'', watchlist_file = Some [],
      open_positions = held, trace = []\<rparr>"

definition idle_world :: world where
  "idle_world = \<lparr>scanner_file = None, watchlist_file = None, open_positions = {}, trace = []\<rparr>"


definition aapl_queued :: world where
  "aapl_queued = \<lparr>scanner_file = Some ''AAPL\<newline>'', watchlist_file = Some [],
                   open_positions = {}, trace = []\<rparr>"


section \<open>Lemmas on text\<close>

lemma ord_to_upper: "ord (to_upper c) = (if is_lower c then ord c - 32 else ord c)"
  by (cases c) (auto simp: to_upper_def is_lower_def ord_def)

lemma ord_to_lower: "ord (to_lower c) = (if is_upper c then ord c + 32 else ord c)"
  by (cases c) (auto simp: to_lower_def is_upper_def ord_def)

lemma ord_inj: "ord a = ord b \<Longrightarrow> a = b"
  by (simp add: ord_def)

lemma is_space_to_upper: "is_space (to_upper c) = is_space c"
  by (auto simp: ord_to_upper is_space_def is_lower_def)

lemma to_upper_eq_iff: "to_upper a = to_upper b \<longleftrightarrow> to_lower a = to_lower b"
proof
  assume "to_upper a = to_upper b"
  then have "ord (to_upper a) = ord (to_upper b)" by simp
  then have "ord (to_lower a) = ord (to_lower b)"
    by (auto simp: ord_to_upper ord_to_lower is_lower_def is_upper_def split: if_splits)
  then show "to_lower a = to_lower b" by (rule ord_inj)
next
  assume "to_lower a = to_lower b"
  then have "ord (to_lower a) = ord (to_lower b)" by simp
  then have "ord (to_upper a) = ord (to_upper b)"
    by (auto simp: ord_to_upper ord_to_lower is_lower_def is_upper_def split: if_splits)
  then show "to_upper a = to_upper b" by (rule ord_inj)
qed

lemma str_upper_eq_iff: "str_upper a = str_upper b \<longleftrightarrow> same_symbol a b"
  unfolding str_upper_def str_lower_def same_symbol_def
proof (induction a arbitrary: b)
  case Nil
  then show ?case by auto
next
  case (Cons x xs)
  then show ?case by (cases b) (auto simp: to_upper_eq_iff)
qed

lemma list_all_dropWhile: "list_all P (dropWhile P s) \<longleftrightarrow> list_all P s"
  by (induction s) auto

lemma str_strip_empty_iff: "str_strip s = [] \<longleftrightarrow> blank s"
proof -
  have "str_strip s = [] \<longleftrightarrow> list_all is_space (dropWhile is_space s)"
    by (simp add: str_strip_def dropWhile_eq_Nil_conv list_all_iff)
  then show ?thesis
    by (simp add: blank_def list_all_dropWhile)
qed

lemma split_from_nonspace:
  "list_all (\<lambda>c. \<not> is_space c) t \<Longrightarrow> split_from tok (t @ s) = split_from (tok @ t) s"
  by (induction t arbitrary: tok) auto

lemma split_from_token:
  assumes "tok \<noteq> []"
  shows "split_from tok s =
           (tok @ takeWhile (\<lambda>c. \<not> is_space c) s) # split_from [] (dropWhile (\<lambda>c. \<not> is_space c) s)"
  using assms by (induction s arbitrary: tok) auto

lemma split_from_skip: "split_from [] s = split_from [] (dropWhile is_space s)"
  by (induction s) auto

lemma str_split_dropWhile: "str_split (dropWhile is_space s) = str_split s"
  unfolding str_split_def by (rule split_from_skip [symmetric])

lemma split_from_trailing_space:
  "is_space c \<Longrightarrow> split_from tok (s @ [c]) = split_from tok s"
  by (induction s arbitrary: tok) auto

lemma split_from_trailing:
  "split_from tok (rev (dropWhile is_space r)) = split_from tok (rev r)"
proof (induction r)
  case Nil
  then show ?case by simp
next
  case (Cons c r)
  then show ?case by (simp add: split_from_trailing_space)
qed

lemma str_split_strip: "str_split (str_strip s) = str_split s"
proof -
  have "str_split (str_strip s) = str_split (rev (rev (dropWhile is_space s)))"
    unfolding str_strip_def str_split_def by (rule split_from_trailing)
  then show ?thesis by (simp add: str_split_dropWhile)
qed

lemma str_split_first:
  assumes "\<not> blank s"
  shows "str_split s \<noteq> []" and "hd (str_split s) = first_token s"
proof -
  obtain c cs where d: "dropWhile is_space s = c # cs" and c: "\<not> is_space c"
    using assms
    by (metis blank_def dropWhile_eq_Nil_conv hd_dropWhile list.exhaust list.sel(1) list_all_iff)
  have "str_split s = split_from [] (c # cs)"
    using d by (metis str_split_def split_from_skip)
  also have "\<dots> = split_from [c] cs" using c by simp
  also have "\<dots> = ([c] @ takeWhile (\<lambda>c. \<not> is_space c) cs)
                    # split_from [] (dropWhile (\<lambda>c. \<not> is_space c) cs)"
    by (rule split_from_token) simp
  finally have eq: "str_split s = (c # takeWhile (\<lambda>c. \<not> is_space c) cs)
                    # split_from [] (dropWhile (\<lambda>c. \<not> is_space c) cs)" by simp
  show "str_split s \<noteq> []" using eq by simp
  show "hd (str_split s) = first_token s"
    using eq d c by (simp add: first_token_def)
qed


section \<open>Lemmas on lines\<close>

lemmas eval_text = readlines_def writelines_def str_strip_def str_split_def str_upper_def
  str_lower_def to_upper_def to_lower_def is_lower_def is_upper_def is_space_def ord_def
  first_token_def same_symbol_def blank_def

lemma readlines_from_no_newline:
  "CHR 0x0A \<notin> set t \<Longrightarrow> readlines_from cur (t @ s) = readlines_from (cur @ t) s"
  by (induction t arbitrary: cur) auto

lemma readlines_from_line:
  assumes "line_ok l" and "last l = CHR 0x0A"
  shows "readlines_from cur (l @ s) = (cur @ l) # readlines_from [] s"
proof -
  have l: "l = butlast l @ [CHR 0x0A]"
    using assms by (metis append_butlast_last_id line_ok_def)
  have "readlines_from cur (butlast l @ (CHR 0x0A # s)) = readlines_from (cur @ butlast l) (CHR 0x0A # s)"
    using assms(1) by (intro readlines_from_no_newline) (simp add: line_ok_def)
  also have "\<dots> = (cur @ butlast l @ [CHR 0x0A]) # readlines_from [] s" by simp
  finally show ?thesis using l by (metis append.assoc append_Cons append_Nil)
qed

lemma readlines_from_last_line:
  assumes "line_ok l"
  shows "readlines_from cur l = [cur @ l]"
proof (cases "last l = CHR 0x0A")
  case True
  then have "readlines_from cur (l @ []) = (cur @ l) # readlines_from [] []"
    using assms by (rule readlines_from_line [rotated])
  then show ?thesis by simp
next
  case False
  then have "CHR 0x0A \<notin> set l"
    using assms by (metis append_butlast_last_id line_ok_def rotate1.simps(2) set_ConsD set_rotate1)
  then have "readlines_from cur (l @ []) = readlines_from (cur @ l) []"
    by (rule readlines_from_no_newline)
  then show ?thesis using assms by (simp add: line_ok_def)
qed

lemma lines_ok_Cons: "line_ok l \<Longrightarrow> last l = CHR 0x0A \<Longrightarrow> lines_ok ls \<Longrightarrow> lines_ok (l # ls)"
  by (cases ls) auto

lemma lines_ok_tail: "lines_ok (l # ls) \<Longrightarrow> lines_ok ls"
  by (cases ls) auto

lemma lines_ok_head: "lines_ok (l # ls) \<Longrightarrow> line_ok l"
  by (cases ls) auto

lemma readlines_concat: "lines_ok ls \<Longrightarrow> readlines (concat ls) = ls"
  unfolding readlines_def
proof (induction ls rule: lines_ok.induct)
  case 1
  then show ?case by simp
next
  case (2 l)
  then show ?case by (simp add: readlines_from_last_line)
next
  case (3 l v va)
  then show ?case by (simp add: readlines_from_line)
qed

lemma lines_ok_readlines_from:
  "CHR 0x0A \<notin> set cur \<Longrightarrow> lines_ok (readlines_from cur s)"
proof (induction s arbitrary: cur)
  case Nil
  then show ?case by (simp add: line_ok_def) (meson in_set_butlastD)
next
  case (Cons c cs)
  show ?case
  proof (cases "c = CHR 0x0A")
    case True
    have "lines_ok (readlines_from [] cs)" by (rule Cons.IH) simp
    then have "lines_ok ((cur @ [c]) # readlines_from [] cs)"
      using True Cons.prems by (intro lines_ok_Cons) (simp_all add: line_ok_def)
    then show ?thesis using True by simp
  next
    case False
    then show ?thesis using Cons by simp
  qed
qed

lemma lines_ok_readlines: "lines_ok (readlines s)"
  unfolding readlines_def by (rule lines_ok_readlines_from) simp

lemma lines_ok_filter: "lines_ok ls \<Longrightarrow> lines_ok (filter P ls)"
proof (induction ls rule: lines_ok.induct)
  case 1
  then show ?case by simp
next
  case (2 l)
  then show ?case by simp
next
  case (3 l v va)
  then show ?case by (auto intro: lines_ok_Cons)
qed

lemma readlines_writelines_filter:
  "readlines (writelines (filter P (readlines s))) = filter P (readlines s)"
  unfolding writelines_def by (intro readlines_concat lines_ok_filter lines_ok_readlines)

lemma concat_readlines_from: "concat (readlines_from cur s) = cur @ s"
  by (induction s arbitrary: cur) auto

lemma kept_line_iff:
  "(str_strip line \<noteq> [] \<and> str_upper (hd (str_split (str_strip line))) \<noteq> str_upper ticker)
   \<longleftrightarrow> (\<not> blank line \<and> \<not> same_symbol (first_token line) ticker)"
  by (auto simp: str_strip_empty_iff str_split_strip str_split_first(2) str_upper_eq_iff)


section \<open>Removing a symbol from the scanner queue\<close>

text \<open>
  C8, as amended. \<^verbatim>\<open>_remove_ticker_from_scanner\<close> rewrites the scanner queue to
  exactly the prior lines that are not blank and whose first token does not match the
  symbol up to letter case, each unchanged and in the original order: the lines whose
  first token matches are removed, and so are the blank lines. The file exists
  afterwards exactly when it existed before, and neither the watchlist nor the open
  positions change.
\<close>

theorem remove_ticker_keeps_other_lines:
  "scanner_lines (remove_ticker_from_scanner ticker w) =
     filter (\<lambda>line. \<not> blank line \<and> \<not> same_symbol (first_token line) ticker) (scanner_lines w)
   \<and> (scanner_file (remove_ticker_from_scanner ticker w) = None \<longleftrightarrow> scanner_file w = None)
   \<and> watchlist_file (remove_ticker_from_scanner ticker w) = watchlist_file w
   \<and> open_positions (remove_ticker_from_scanner ticker w) = open_positions w"
proof (cases "scanner_file w")
  case None
  then show ?thesis by (simp add: remove_ticker_from_scanner_def scanner_lines_def)
next
  case (Some content)
  have "readlines (writelines (filter (\<lambda>line. str_strip line \<noteq> [] \<and>
            str_upper (hd (str_split (str_strip line))) \<noteq> str_upper ticker) (readlines content)))
        = filter (\<lambda>line. \<not> blank line \<and> \<not> same_symbol (first_token line) ticker) (readlines content)"
    unfolding readlines_writelines_filter by (simp add: kept_line_iff)
  then show ?thesis
    using Some by (simp add: remove_ticker_from_scanner_def scanner_lines_def Let_def)
qed

text \<open>
  C8 as stated fails on a queue with a blank line: the blank line has no first token
  that matches, and it is removed all the same.
\<close>

theorem remove_ticker_drops_blank_lines:
  "scanner_lines (remove_ticker_from_scanner ''AAPL''
       \<lparr>scanner_file = Some ''\<newline>MSFT\<newline>'', watchlist_file = None,
        open_positions = {}, trace = []\<rparr>)
   \<noteq> claimed_remaining ''AAPL'' (readlines ''\<newline>MSFT\<newline>'')"
  by (simp add: remove_ticker_from_scanner_def scanner_lines_def claimed_remaining_def
      Let_def eval_text)


section \<open>A scanner entry that is an open position\<close>

text \<open>
  C5. With the scanner queue holding the one entry AAPL, AAPL among the open positions
  and an empty watchlist, \<^verbatim>\<open>process_next_ticker\<close> leaves the scanner queue
  empty and the watchlist empty, whatever the market data: its only effect is one
  rewrite of the scanner file, and no price history is requested.
\<close>

theorem open_position_dropped_unvalidated:
  "process_next_ticker market
     \<lparr>scanner_file = Some ''AAPL\<newline>'', watchlist_file = Some [],
      open_positions = {''AAPL''}, trace = []\<rparr>
   = \<lparr>scanner_file = Some [], watchlist_file = Some [],
      open_positions = {''AAPL''}, trace = [Write_scanner []]\<rparr>"
  by (simp add: process_next_ticker_def get_first_ticker_from_scanner_def
      remove_ticker_from_scanner_def Let_def eval_text)


section \<open>Too short a price history\<close>

lemma validate_history_short:
  "length df < 100 \<Longrightarrow> validate_history (Some df) = (False, None)"
  by (simp add: validate_history_def calculate_ema_def split: option.splits)

text \<open>
  C4. When the download yields fewer than 100 bars, \<^verbatim>\<open>validate_ema_criteria\<close>
  returns False with the empty dictionary, whatever the bars are: the outcome is never
  Valid.
\<close>

theorem short_history_rejected:
  assumes "fst (download_historical_data market ticker w) = Some df"
    and "length df < 100"
  shows "fst (validate_ema_criteria market ticker w) = (False, None)"
  using assms
  by (auto simp: validate_ema_criteria_def validate_history_short split: prod.splits)

theorem short_history_rejected_witness:
  "fst (download_historical_data short_market ''AAPL'' idle_world) = Some (replicate 99 breakout_bar)
   \<and> length (replicate 99 breakout_bar) < 100
   \<and> fst (validate_ema_criteria short_market ''AAPL'' idle_world) = (False, None)"
proof -
  have d: "fst (download_historical_data short_market ''AAPL'' idle_world)
     = Some (replicate 99 breakout_bar)"
    by (simp add: download_historical_data_def max_retries_def short_market_def
        numeral_2_eq_2 Let_def)
  have l: "length (replicate 99 breakout_bar) < 100"
    by simp
  show ?thesis using d l short_history_rejected [OF d l] by simp
qed


section \<open>The validation rule\<close>

lemma foldl_ewm_from:
  "last (y # ewm_from a y xs) = foldl (\<lambda>y x. (1 - a) * y + a * x) y xs"
  by (induction xs arbitrary: y) (auto simp: Let_def)

lemma last_ewm_mean: "xs \<noteq> [] \<Longrightarrow> last (ewm_mean n xs) = ema_value n xs"
  using foldl_ewm_from [of "hd xs" "2 / (real n + 1)" "tl xs"]
  by (cases xs) (auto simp: ema_value_def)

lemma length_ewm_from: "length (ewm_from a y xs) = length xs"
  by (induction xs arbitrary: y) (auto simp: Let_def)

lemma length_ewm_mean: "length (ewm_mean n xs) = length xs"
  by (cases xs) (auto simp: length_ewm_from)

lemma length_rolling: "length (rolling p f xs) = length xs"
  by (simp add: rolling_def)

lemma last_rolling:
  assumes "xs \<noteq> []" and "p \<le> length xs"
  shows "last (rolling p f xs) = f (take p (last_n p xs))"
proof -
  have "[0 ..< length xs] \<noteq> []" using assms by simp
  then have "last (rolling p f xs) =
      (\<lambda>i. if i + 1 < p then None else f (take p (drop (i + 1 - p) xs))) (last [0 ..< length xs])"
    unfolding rolling_def by (rule last_map)
  moreover have "last [0 ..< length xs] = length xs - 1"
    using assms by (metis last_upt length_greater_0_conv)
  ultimately show ?thesis using assms by (cases xs) (auto simp: last_n_def)
qed

lemma last_map2:
  assumes "xs \<noteq> []" and "length xs = length ys"
  shows "last (map2 f xs ys) = f (last xs) (last ys)"
proof -
  have "ys \<noteq> []" using assms by auto
  then have "last (zip xs ys) = (last xs, last ys)"
    using assms by (simp add: last_zip)
  moreover have "zip xs ys \<noteq> []" using assms \<open>ys \<noteq> []\<close> by (cases xs; cases ys) auto
  ultimately show ?thesis by (simp add: last_map)
qed

lemma last_upper_band:
  assumes "20 \<le> length df"
    and "calculate_bollinger_bands df 20 2 = Some bb"
  shows "last (upper bb) = Some (upper_bollinger (map bar_close df))"
proof -
  let ?closes = "map bar_close df"
  let ?win = "last_n 20 ?closes"
  have ne: "?closes \<noteq> []" using assms(1) by auto
  have len: "length ?win = 20" using assms(1) by (simp add: last_n_def)
  have u: "upper bb = map2 (band (\<lambda>m s. m + s * real 2))
             (rolling 20 window_mean ?closes) (rolling 20 window_std ?closes)"
    using assms ne by (auto simp: calculate_bollinger_bands_def Let_def split: if_splits)
  have "last (upper bb) = band (\<lambda>m s. m + s * real 2)
          (last (rolling 20 window_mean ?closes)) (last (rolling 20 window_std ?closes))"
    unfolding u using ne by (intro last_map2) (simp_all add: length_rolling rolling_def)
  also have "last (rolling 20 window_mean ?closes) = window_mean ?win"
    using ne assms(1) len by (subst last_rolling) simp_all
  also have "last (rolling 20 window_std ?closes) = window_std ?win"
    using ne assms(1) len by (subst last_rolling) simp_all
  also have "window_mean ?win = Some (mean ?win)"
    using len by (auto simp: window_mean_def mean_def)
  also have "window_std ?win = Some (sample_std ?win)"
    using len by (simp add: window_std_def sample_std_def mean_def Let_def)
  finally show ?thesis by (simp add: band_def upper_bollinger_def)
qed

lemma validate_history_long:
  assumes "100 \<le> length df"
  shows "fst (validate_history (Some df)) = three_checks df"
    and "map_option low_price (snd (validate_history (Some df))) = Some (bar_low (last df))"
proof -
  let ?closes = "map bar_close df"
  have ne: "?closes \<noteq> []" using assms by auto
  have e21: "calculate_ema df 21 = Some (ewm_mean 21 ?closes)"
    and e100: "calculate_ema df 100 = Some (ewm_mean 100 ?closes)"
    using assms by (simp_all add: calculate_ema_def)
  have dne: "df \<noteq> []" using assms by auto
  obtain bb where bb: "calculate_bollinger_bands df 20 2 = Some bb"
    using assms dne by (simp add: calculate_bollinger_bands_def Let_def)
  have up: "last (upper bb) = Some (upper_bollinger ?closes)"
    using assms bb by (intro last_upper_band) simp_all
  show "fst (validate_history (Some df)) = three_checks df"
    using ne by (simp add: validate_history_def e21 e100 bb up Let_def last_ewm_mean
        greater_than_def three_checks_def)
  show "map_option low_price (snd (validate_history (Some df))) = Some (bar_low (last df))"
    by (simp add: validate_history_def e21 e100 bb Let_def)
qed


lemma download_attempts_files:
  "scanner_file (snd (download_attempts market s left a w)) = scanner_file w
   \<and> watchlist_file (snd (download_attempts market s left a w)) = watchlist_file w
   \<and> open_positions (snd (download_attempts market s left a w)) = open_positions w"
proof (induction left arbitrary: a w)
  case 0
  then show ?case by simp
next
  case (Suc left)
  let ?w' = "w\<lparr>trace := trace w @ [Fetch_history s a]\<rparr>"
  have ih: "scanner_file (snd (download_attempts market s left (Suc a) ?w')) = scanner_file w
   \<and> watchlist_file (snd (download_attempts market s left (Suc a) ?w')) = watchlist_file w
   \<and> open_positions (snd (download_attempts market s left (Suc a) ?w')) = open_positions w"
    using Suc.IH [of "Suc a" ?w'] by simp
  show ?case
  proof (cases "market s a")
    case (History df)
    then show ?thesis by (simp add: Let_def)
  next
    case Socket_timeout
    then show ?thesis using ih by (simp add: Let_def)
  next
    case Fetch_error
    then show ?thesis using ih by (simp add: Let_def)
  qed
qed

lemma download_attempts_trace:
  "\<exists>evs. trace (snd (download_attempts market s left a w)) = trace w @ evs \<and> list_all is_fetch evs"
proof (induction left arbitrary: a w)
  case 0
  then show ?case by simp
next
  case (Suc left)
  let ?w' = "w\<lparr>trace := trace w @ [Fetch_history s a]\<rparr>"
  obtain evs where evs: "trace (snd (download_attempts market s left (Suc a) ?w'))
      = trace ?w' @ evs" "list_all is_fetch evs"
    using Suc.IH [of "Suc a" ?w'] by blast
  have retry: "trace (snd (download_attempts market s left (Suc a) ?w'))
      = trace w @ (Fetch_history s a # evs)"
    using evs(1) by simp
  have retry_ok: "list_all is_fetch (Fetch_history s a # evs)"
    using evs(2) by simp
  have stop: "trace ?w' = trace w @ [Fetch_history s a]"
    by simp
  have stop_ok: "list_all is_fetch [Fetch_history s a]"
    by simp
  have "snd (download_attempts market s (Suc left) a w) = ?w'
      \<or> snd (download_attempts market s (Suc left) a w) = snd (download_attempts market s left (Suc a) ?w')"
    by (cases "market s a") (simp_all add: Let_def)
  then show ?case
  proof
    assume "snd (download_attempts market s (Suc left) a w) = ?w'"
    then show ?thesis using stop stop_ok by metis
  next
    assume "snd (download_attempts market s (Suc left) a w) = snd (download_attempts market s left (Suc a) ?w')"
    then show ?thesis using retry retry_ok by metis
  qed
qed

lemma validate_unfold:
  "validate_ema_criteria market s w =
     (validate_history (fst (download_historical_data market s w)),
      snd (download_historical_data market s w))"
  by (simp add: validate_ema_criteria_def case_prod_beta)

lemma validate_files:
  "scanner_file (snd (validate_ema_criteria market s w)) = scanner_file w
   \<and> watchlist_file (snd (validate_ema_criteria market s w)) = watchlist_file w
   \<and> open_positions (snd (validate_ema_criteria market s w)) = open_positions w"
  unfolding validate_unfold download_historical_data_def snd_conv
  by (rule download_attempts_files)

lemma validate_trace:
  "\<exists>evs. trace (snd (validate_ema_criteria market s w)) = trace w @ evs \<and> list_all is_fetch evs"
  unfolding validate_unfold download_historical_data_def snd_conv
  by (rule download_attempts_trace)


lemma remove_ticker_frame:
  "watchlist_file (remove_ticker_from_scanner t w) = watchlist_file w"
  "open_positions (remove_ticker_from_scanner t w) = open_positions w"
  by (simp_all add: remove_ticker_from_scanner_def Let_def split: option.splits)



subsection \<open>The breakout scenario\<close>

lemma foldl_replicate_fixed:
  "f y x = y \<Longrightarrow> foldl f y (replicate n x) = y"
  by (induction n) auto

lemma closes_breakout: "map bar_close breakout_history = replicate 99 10 @ [20]"
  by (simp add: breakout_history_def flat_bar_def breakout_bar_def)

lemma ema_breakout: "ema_value n (replicate 99 10 @ [20]) = 10 + 20 / (real n + 1)"
proof -
  let ?f = "\<lambda>y x. (1 - 2 / (real n + 1)) * y + 2 / (real n + 1) * x"
  have r: "replicate 99 (10::real) = 10 # replicate 98 10"
    by (simp add: replicate_Suc [symmetric] del: replicate_Suc)
  have "?f 10 10 = 10" by (simp add: algebra_simps)
  then have "foldl ?f 10 (replicate 98 10) = 10" by (rule foldl_replicate_fixed)
  then have "ema_value n (replicate 99 10 @ [20]) = ?f 10 20"
    unfolding ema_value_def r by simp
  also have "\<dots> = 10 + 20 / (real n + 1)" by (simp add: algebra_simps)
  finally show ?thesis .
qed

lemma upper_breakout: "upper_bollinger (replicate 99 10 @ [20]) = 21 / 2 + 2 * sqrt 5"
proof -
  have w: "last_n 20 (replicate 99 (10::real) @ [20]) = replicate 19 10 @ [20]"
    by (simp add: last_n_def)
  have m: "mean (replicate 19 10 @ [20]) = 21 / 2"
    by (simp add: mean_def sum_list_replicate)
  have "sum_list (map (\<lambda>x. (x - 21 / 2)\<^sup>2) (replicate 19 (10::real) @ [20])) = 95"
    by (simp add: sum_list_replicate power2_eq_square)
  then have "sample_std (replicate 19 10 @ [20]) = sqrt 5"
    by (simp add: sample_std_def m)
  then show ?thesis by (simp add: upper_bollinger_def w m)
qed

lemma sqrt5_less_3: "sqrt 5 < 3"
  by (rule real_less_lsqrt) simp_all

lemma three_checks_breakout: "three_checks breakout_history"
proof -
  have l: "last breakout_history = breakout_bar" by (simp add: breakout_history_def)
  have "ema_value 21 (replicate 99 10 @ [20]) > ema_value 100 (replicate 99 10 @ [20])"
    by (simp add: ema_breakout)
  moreover have "bar_close breakout_bar > bar_open breakout_bar"
    by (simp add: breakout_bar_def)
  moreover have "bar_close breakout_bar > upper_bollinger (replicate 99 10 @ [20])"
    using sqrt5_less_3 by (simp add: breakout_bar_def upper_breakout)
  ultimately show ?thesis by (simp add: three_checks_def closes_breakout l)
qed

lemma download_breakout:
  "download_historical_data breakout_market ticker w
     = (Some breakout_history, w\<lparr>trace := trace w @ [Fetch_history ticker 0]\<rparr>)"
  by (simp add: download_historical_data_def max_retries_def numeral_2_eq_2 Let_def
      breakout_market_def breakout_history_def)

lemma format_breakout_low: "format_2f (19 / 2) = ''9.50''"
proof -
  have "round_half_even (\<bar>19 / 2\<bar> * 100) = 950" by (simp add: round_half_even_def)
  then show ?thesis by (simp add: format_2f_def digit_char_def digits.simps)
qed

lemma select_aapl: "get_first_ticker_from_scanner aapl_queued = (Some ''AAPL'', aapl_queued)"
  by (simp add: get_first_ticker_from_scanner_def aapl_queued_def Let_def eval_text)




section \<open>Bars since the last crossover\<close>

lemma crossover_scan_find:
  assumes "m < length is_above" and "is_above ! m"
  shows "crossover_scan is_above m =
     (case find (\<lambda>i. \<not> is_above ! (i - 1) \<and> is_above ! i) (rev [1 ..< Suc m]) of
        Some i \<Rightarrow> length is_above - i
      | None \<Rightarrow> length is_above)"
  using assms
proof (induction m)
  case 0
  then show ?case by simp
next
  case (Suc j)
  show ?case
  proof (cases "is_above ! j")
    case True
    then have "crossover_scan is_above (Suc j) = crossover_scan is_above j" by simp
    also have "\<dots> = (case find (\<lambda>i. \<not> is_above ! (i - 1) \<and> is_above ! i) (rev [1 ..< Suc j]) of
        Some i \<Rightarrow> length is_above - i | None \<Rightarrow> length is_above)"
      using Suc.IH Suc.prems True by simp
    finally show ?thesis using True by simp
  next
    case False
    then show ?thesis using Suc.prems by simp
  qed
qed

text \<open>
  C9. For two EMA series of the same length whose last bar has EMA(21) above EMA(100),
  \<^verbatim>\<open>calculate_bars_since_crossover\<close> returns the age of the last crossing from
  EMA(21) not above EMA(100) to EMA(21) above EMA(100), and the length of the series
  when there is no such crossing. The value is informational: whatever the history,
  the decision of the validation is the conjunction of the three checks recorded in the
  returned values, in which the age of the crossover does not occur.
\<close>

theorem bars_since_crossover_informational:
  assumes "length ema_21_series = length ema_100_series"
    and "ema_21_series \<noteq> []"
    and "last ema_21_series > last ema_100_series"
  shows "calculate_bars_since_crossover ema_21_series ema_100_series
           = Some (bars_since_last_crossover (map2 (\<lambda>a b. a > b) ema_21_series ema_100_series))
    \<and> fst (validate_history data)
         = (case snd (validate_history data) of
              None \<Rightarrow> False
            | Some v \<Rightarrow> ema_check v \<and> bullish_bar v \<and> above_bb_upper v)"
proof -
  define ab where "ab = map2 (\<lambda>a b. a > b) ema_21_series ema_100_series"
  have ne: "ab \<noteq> []"
    unfolding ab_def using assms(1,2) by (cases ema_21_series; cases ema_100_series) auto
  have l: "last ab" unfolding ab_def using assms by (simp add: last_map2)
  obtain k where k: "length ab = Suc k" using ne by (cases ab) auto
  have "ab ! k" using l ne k by (simp add: last_conv_nth)
  moreover have "k < length ab" using k by simp
  ultimately have "crossover_scan ab k =
     (case find (\<lambda>i. \<not> ab ! (i - 1) \<and> ab ! i) (rev [1 ..< Suc k]) of
        Some i \<Rightarrow> length ab - i | None \<Rightarrow> length ab)"
    by (rule crossover_scan_find [rotated])
  then have "crossover_scan ab (length ab - 1) = bars_since_last_crossover ab"
    by (simp add: bars_since_last_crossover_def last_crossover_def k)
  then have 1: "calculate_bars_since_crossover ema_21_series ema_100_series
           = Some (bars_since_last_crossover (map2 (\<lambda>a b. a > b) ema_21_series ema_100_series))"
    using ne l assms(1) unfolding ab_def
    by (simp add: calculate_bars_since_crossover_def Let_def)
  have 2: "fst (validate_history data)
         = (case snd (validate_history data) of
              None \<Rightarrow> False
            | Some v \<Rightarrow> ema_check v \<and> bullish_bar v \<and> above_bb_upper v)"
    by (simp add: validate_history_def Let_def split: option.splits)
  show ?thesis using 1 2 by (rule conjI)
qed

lemma ewm_from_fixed: "ewm_from a y (replicate n y) = replicate n y"
  by (induction n) (auto simp: Let_def algebra_simps)

lemma ewm_from_append:
  "ewm_from a y (xs @ [x]) = ewm_from a y xs @ [(1 - a) * last (y # ewm_from a y xs) + a * x]"
  by (induction xs arbitrary: y) (auto simp: Let_def)

lemma ewm_mean_breakout:
  "ewm_mean n (replicate 99 10 @ [20]) = replicate 99 10 @ [10 + 20 / (real n + 1)]"
proof -
  have r: "replicate 99 (10::real) = 10 # replicate 98 10"
    by (simp add: replicate_Suc [symmetric] del: replicate_Suc)
  have "ewm_mean n (10 # replicate 98 10 @ [20])
      = 10 # replicate 98 10 @ [(1 - 2 / (real n + 1)) * 10 + 2 / (real n + 1) * 20]"
    by (simp add: ewm_from_append ewm_from_fixed)
  also have "(1 - 2 / (real n + 1)) * 10 + 2 / (real n + 1) * 20 = 10 + 20 / (real n + 1)"
    by (simp add: algebra_simps)
  finally show ?thesis unfolding r by simp
qed

lemma above_breakout:
  "map2 (\<lambda>a b. a > b) (ewm_mean 21 (replicate 99 10 @ [20])) (ewm_mean 100 (replicate 99 10 @ [20]))
     = replicate 99 False @ [True]"
proof -
  have "zip (replicate 99 (10::real) @ [10 + 20 / 22]) (replicate 99 10 @ [10 + 20 / 101])
      = zip (replicate 99 10) (replicate 99 10) @ zip [10 + 20 / 22] [10 + 20 / 101]"
    by (rule zip_append) simp
  then show ?thesis
    by (simp add: ewm_mean_breakout zip_replicate)
qed

lemma crossover_breakout: "bars_since_last_crossover (replicate 99 False @ [True]) = 1"
proof -
  let ?ab = "replicate 99 False @ [True]"
  let ?P = "\<lambda>i. \<not> ?ab ! (i - 1) \<and> ?ab ! i"
  have "[1 ..< Suc 99] = [1 ..< 99] @ [99]"
    by (rule upt_Suc_append) simp
  then have "rev [1 ..< Suc 99] = 99 # rev [1 ..< 99]"
    by (simp only: rev_append rev.simps append.simps)
  moreover have "?P 99" by (simp add: nth_append)
  ultimately have "find ?P (rev [1 ..< Suc 99]) = Some 99"
    by (simp only: find.simps simp_thms if_True)
  moreover have "length ?ab = Suc 99" by simp
  ultimately have "last_crossover ?ab = Some 99"
    by (simp only: last_crossover_def)
  then show ?thesis
    by (simp add: bars_since_last_crossover_def)
qed

theorem bars_since_crossover_informational_witness:
  "length (ewm_mean 21 (map bar_close breakout_history))
     = length (ewm_mean 100 (map bar_close breakout_history))
   \<and> ewm_mean 21 (map bar_close breakout_history) \<noteq> []
   \<and> last (ewm_mean 21 (map bar_close breakout_history))
       > last (ewm_mean 100 (map bar_close breakout_history))
   \<and> calculate_bars_since_crossover (ewm_mean 21 (map bar_close breakout_history))
       (ewm_mean 100 (map bar_close breakout_history)) = Some 1
   \<and> fst (validate_history (Some breakout_history))"
proof -
  let ?e21 = "ewm_mean 21 (map bar_close breakout_history)"
  let ?e100 = "ewm_mean 100 (map bar_close breakout_history)"
  have a: "length ?e21 = length ?e100" by (simp add: length_ewm_mean)
  have b: "?e21 \<noteq> []" by (simp add: closes_breakout ewm_mean_breakout)
  have c: "last ?e21 > last ?e100" by (simp add: closes_breakout ewm_mean_breakout)
  note t = bars_since_crossover_informational [OF a b c, of "Some breakout_history"]
  have "calculate_bars_since_crossover ?e21 ?e100 = Some 1"
    using t by (simp add: closes_breakout above_breakout crossover_breakout)
  moreover have "fst (validate_history (Some breakout_history))"
    using validate_history_long(1) [of breakout_history] three_checks_breakout
    by (simp add: breakout_history_def)
  ultimately show ?thesis using a b c by simp
qed


section \<open>The dispatch sweep\<close>

lemma str_split_blank:
  assumes "blank line"
  shows "str_split line = []"
proof -
  have d: "dropWhile is_space line = []"
    using assms by (simp add: blank_def list_all_iff)
  have "str_split line = str_split (dropWhile is_space line)"
    by (simp only: str_split_dropWhile)
  also have "\<dots> = []" unfolding d by (simp add: str_split_def)
  finally show ?thesis .
qed

lemma sweep_entries:
  "map entry (sweep to_float client n ls)
     = map str_strip (filter (\<lambda>line. 2 \<le> length (str_split line)) ls)"
proof (induction ls arbitrary: n)
  case Nil
  then show ?case by simp
next
  case (Cons l ls)
  show ?case
  proof (cases "str_strip l = []")
    case True
    then have "str_split l = []" by (simp add: str_strip_empty_iff str_split_blank)
    then show ?thesis using True Cons.IH by simp
  next
    case False
    show ?thesis
    proof (cases "length (str_split l) < 2")
      case True
      then show ?thesis using False Cons.IH by (simp add: str_split_strip)
    next
      case long: False
      show ?thesis
      proof (cases "to_float (str_split l ! 1)")
        case None
        then show ?thesis using False long Cons.IH by (simp add: str_split_strip)
      next
        case (Some limit_price)
        show ?thesis
        proof (cases "client n (create_limit_order (str_upper (str_split l ! 0)) limit_price 1)")
          case (Status code)
          then show ?thesis using False long Some Cons.IH by (simp add: str_split_strip Let_def)
        next
          case Raised
          then show ?thesis using False long Some Cons.IH by (simp add: str_split_strip)
        qed
      qed
    qed
  qed
qed

text \<open>
  C2. For every watchlist file, whatever \<^verbatim>\<open>float\<close> and the brokerage client do:
  \<^verbatim>\<open>process_watchlist_orders\<close> makes one order attempt for each entry of the file
  (each line with a symbol and a price), in the order of the file, so exactly as
  many attempts as there are entries, and afterwards the file is empty. An attempt ends
  as placed, rejected, invalid price or failed; a blank line and a line without a price
  are no entries and are skipped.
\<close>

theorem sweep_attempts_each_entry_once:
  "fst (process_watchlist_orders to_float client (Some content)) = Some []
   \<and> map entry (snd (process_watchlist_orders to_float client (Some content)))
       = map str_strip (watchlist_entries content)
   \<and> length (snd (process_watchlist_orders to_float client (Some content)))
       = length (watchlist_entries content)"
proof (cases "readlines content = []")
  case True
  then have "content = []"
    using concat_readlines_from [of "[]" content] by (simp add: readlines_def)
  then show ?thesis
    by (simp add: process_watchlist_orders_def watchlist_entries_def readlines_def)
next
  case False
  have e: "map entry (sweep to_float client 0 (readlines content))
       = map str_strip (watchlist_entries content)"
    unfolding watchlist_entries_def by (rule sweep_entries)
  then have "length (map entry (sweep to_float client 0 (readlines content)))
       = length (map str_strip (watchlist_entries content))"
    by simp
  then have "length (sweep to_float client 0 (readlines content)) = length (watchlist_entries content)"
    by simp
  then show ?thesis
    using False e by (simp add: process_watchlist_orders_def Let_def)
qed

text \<open>A sweep over four lines: an order that is placed, a price that is no number, a
  line without a price and an order that is rejected.\<close>

theorem sweep_attempts_each_entry_once_witness:
  "process_watchlist_orders
     (\<lambda>s. if s = ''9.50'' then Some (19 / 2) else if s = ''5.00'' then Some 5 else None)
     (\<lambda>n order. if n = 0 then Status 201 else Status 400)
     (Some ''AAPL 9.50\<newline>MSFT abc\<newline>BAD\<newline>tsla 5.00\<newline>'')
   = (Some [],
      [\<lparr>entry = ''AAPL 9.50'', result = Placed, pause = 3\<rparr>,
       \<lparr>entry = ''MSFT abc'', result = Invalid_price, pause = 10\<rparr>,
       \<lparr>entry = ''tsla 5.00'', result = Rejected 400, pause = 10\<rparr>])
   \<and> length (watchlist_entries ''AAPL 9.50\<newline>MSFT abc\<newline>BAD\<newline>tsla 5.00\<newline>'') = 3"
proof -
  let ?f = "\<lambda>s. if s = ''9.50'' then Some (19 / 2 :: real) else if s = ''5.00'' then Some 5 else None"
  let ?c = "\<lambda>(n::nat) (order::order_payload). if n = 0 then Status 201 else Status 400"
  let ?w = "''AAPL 9.50\<newline>MSFT abc\<newline>BAD\<newline>tsla 5.00\<newline>''"
  have r: "process_watchlist_orders ?f ?c (Some ?w)
   = (Some [],
      [\<lparr>entry = ''AAPL 9.50'', result = Placed, pause = 3\<rparr>,
       \<lparr>entry = ''MSFT abc'', result = Invalid_price, pause = 10\<rparr>,
       \<lparr>entry = ''tsla 5.00'', result = Rejected 400, pause = 10\<rparr>])"
    by (simp add: process_watchlist_orders_def Let_def eval_text)
  have "length (snd (process_watchlist_orders ?f ?c (Some ?w))) = length (watchlist_entries ?w)"
    using sweep_attempts_each_entry_once [of ?f ?c ?w] by blast
  then have "length (watchlist_entries ?w) = 3" by (simp add: r)
  then show ?thesis using r by simp
qed


section \<open>Merging tickers into the scanner queue\<close>

lemma dropWhile_hd: "xs = [] \<or> \<not> P (hd xs) \<Longrightarrow> dropWhile P xs = xs"
  by (cases xs) auto






lemma newline_is_space: "is_space (CHR 0x0A)"
  by (simp add: is_space_def ord_def)













section \<open>The ticker extractor and its reference\<close>

lemma is_upper_is_word: "is_upper c \<Longrightarrow> is_word c"
  by (simp add: is_word_def)

lemma find_length:
  "find (\<lambda>k. k = n \<and> Q) [5, 4, 3, 2, 1 :: nat] = (if Q \<and> 1 \<le> n \<and> n \<le> 5 then Some n else None)"
  by (cases Q) auto

lemma try_length_run:
  assumes s: "s = w @ r" and w: "w \<noteq> []" and ww: "list_all is_word w"
    and r: "r = [] \<or> \<not> is_word (hd r)"
  shows "try_length s k \<longleftrightarrow> (k = length w \<and> list_all is_upper w)"
proof
  assume t: "try_length s k"
  then have k0: "0 < k" and kl: "k \<le> length s" and up: "list_all is_upper (take k s)"
    and b: "boundary (Some (last (take k s))) (head (drop k s))"
    by (simp_all add: try_length_def)
  have "\<not> k < length w"
  proof
    assume lt: "k < length w"
    have tk: "take k s = take k w" using lt s by simp
    have "take k w \<noteq> []" using k0 lt by auto
    then have "last (take k w) \<in> set (take k w)" by (rule last_in_set)
    then have "last (take k w) \<in> set w" by (rule in_set_takeD)
    then have 1: "is_word (last (take k s))" using ww tk by (simp add: list_all_iff)
    have "drop k s = (w ! k) # drop (Suc k) w @ r"
      using lt s by (simp add: Cons_nth_drop_Suc)
    then have "head (drop k s) = Some (w ! k)" by (simp add: head_def)
    moreover have "is_word (w ! k)" using ww lt by (simp add: list_all_length)
    ultimately show False using b 1 by (simp add: boundary_def)
  qed
  moreover have "\<not> length w < k"
  proof
    assume gt: "length w < k"
    then have rne: "r \<noteq> []" using kl s by auto
    then have "hd r \<in> set (take (k - length w) r)"
      using gt by (cases r) (auto simp: take_Cons')
    then have "hd r \<in> set (take k s)" using s by simp
    then have "is_upper (hd r)" using up by (simp add: list_all_iff)
    then show False using r rne by (simp add: is_upper_is_word)
  qed
  ultimately have "k = length w" by simp
  then show "k = length w \<and> list_all is_upper w" using up s by simp
next
  assume a: "k = length w \<and> list_all is_upper w"
  then have tk: "take k s = w" and dk: "drop k s = r" using s by simp_all
  have "is_upper (last w)" using a w by (simp add: list_all_iff)
  then have 1: "is_word (last w)" by (rule is_upper_is_word)
  have 2: "\<not> word_at (head r)" using r by (cases r) (simp_all add: head_def)
  show "try_length s k"
    using a w s 1 2 by (simp add: try_length_def tk dk boundary_def)
qed

lemma match_ticker_nonword: "\<not> is_word c \<Longrightarrow> match_ticker before (c # cs) = None"
proof -
  assume c: "\<not> is_word c"
  have "\<not> try_length (c # cs) k" for k
  proof
    assume "try_length (c # cs) k"
    then have "0 < k" and "list_all is_upper (take k (c # cs))" by (simp_all add: try_length_def)
    then have "is_upper c" by (cases k) simp_all
    then show False using c by (simp add: is_upper_is_word)
  qed
  then have "find (try_length (c # cs)) [5, 4, 3, 2, 1] = None"
    by (simp add: find_None_iff)
  then show ?thesis by (simp add: match_ticker_def)
qed

lemma match_ticker_inside: "word_at before \<Longrightarrow> is_word c \<Longrightarrow> match_ticker before (c # cs) = None"
  by (simp add: match_ticker_def boundary_def head_def)

lemma match_ticker_run:
  assumes "\<not> word_at before" and "is_word c"
  shows "match_ticker before (c # cs) =
     (if is_symbol (takeWhile is_word (c # cs)) then Some (length (takeWhile is_word (c # cs)))
      else None)"
proof -
  let ?s = "c # cs"
  let ?w = "takeWhile is_word ?s"
  let ?r = "dropWhile is_word ?s"
  have s: "?s = ?w @ ?r" by simp
  have w: "?w \<noteq> []" using assms(2) by simp
  have ww: "list_all is_word ?w" by (auto simp: list_all_iff dest: set_takeWhileD)
  have r: "?r = [] \<or> \<not> is_word (hd ?r)" using hd_dropWhile [of is_word ?s] by blast
  have t: "try_length ?s = (\<lambda>k. k = length ?w \<and> list_all is_upper ?w)"
    using try_length_run [OF s w ww r] by (intro ext)
  have b: "boundary before (head ?s)" using assms by (simp add: boundary_def head_def)
  have "match_ticker before ?s = find (try_length ?s) [5, 4, 3, 2, 1]"
    using b by (simp only: match_ticker_def if_True)
  also have "\<dots> = (if list_all is_upper ?w \<and> 1 \<le> length ?w \<and> length ?w \<le> 5
                     then Some (length ?w) else None)"
    unfolding t by (rule find_length)
  finally show ?thesis by (simp only: is_symbol_def conj_commute conj_left_commute)
qed

lemma findall_from_skip:
  "0 < n \<Longrightarrow> n \<le> length s \<Longrightarrow>
     findall_from n before s = findall_from 0 (Some (last (take n s))) (drop n s)"
proof (induction s arbitrary: n before)
  case Nil
  then show ?case by simp
next
  case (Cons c cs)
  then obtain m where n: "n = Suc m" by (cases n) auto
  show ?case
  proof (cases m)
    case 0
    then show ?thesis using n by simp
  next
    case (Suc j)
    then have "findall_from m (Some c) cs = findall_from 0 (Some (last (take m cs))) (drop m cs)"
      using Cons.prems n by (intro Cons.IH) simp_all
    moreover have "take m cs \<noteq> []" using Suc Cons.prems n by auto
    ultimately show ?thesis using n by simp
  qed
qed

lemma findall_from_restart:
  "s = [] \<or> \<not> is_word (hd s) \<Longrightarrow> findall_from 0 before s = findall_from 0 None s"
  by (cases s) (simp_all add: match_ticker_nonword)

lemma findall_from_inside:
  "word_at before \<Longrightarrow> findall_from 0 before s = findall_from 0 None (dropWhile is_word s)"
proof (induction s arbitrary: before)
  case Nil
  then show ?case by simp
next
  case (Cons c cs)
  show ?case
  proof (cases "is_word c")
    case True
    then have "findall_from 0 before (c # cs) = findall_from 0 (Some c) cs"
      using Cons.prems by (simp add: match_ticker_inside)
    also have "\<dots> = findall_from 0 None (dropWhile is_word cs)"
      using True by (intro Cons.IH) simp
    finally show ?thesis using True by simp
  next
    case False
    then have "findall_from 0 before (c # cs) = findall_from 0 None (c # cs)"
      by (intro findall_from_restart) simp
    then show ?thesis using False by simp
  qed
qed

lemma findall_from_run:
  assumes "\<not> word_at before" and "is_word c"
  shows "findall_from 0 before (c # cs) =
     filter is_symbol [takeWhile is_word (c # cs)] @ findall_from 0 None (dropWhile is_word (c # cs))"
proof -
  define w where "w = takeWhile is_word (c # cs)"
  define r where "r = dropWhile is_word (c # cs)"
  have s: "c # cs = w @ r" by (simp add: w_def r_def)
  have rr: "r = [] \<or> \<not> is_word (hd r)"
    unfolding r_def using hd_dropWhile [of is_word "c # cs"] by blast
  have lw: "0 < length w" using assms(2) by (simp add: w_def)
  have dr: "drop (length w) (c # cs) = r" by (simp add: s)
  have tw: "take (length w) (c # cs) = w" by (simp add: s)
  have m: "match_ticker before (c # cs) = (if is_symbol w then Some (length w) else None)"
    unfolding w_def using assms by (rule match_ticker_run)
  have goal: "findall_from 0 before (c # cs) = filter is_symbol [w] @ findall_from 0 None r"
  proof (cases "is_symbol w")
    case True
    obtain j where j: "length w = Suc j" using lw by (cases "length w") auto
    have drj: "drop j cs = r" using dr j by simp
    have le: "j \<le> length cs"
    proof -
      have "length (c # cs) = length w + length r" by (simp add: s)
      then show ?thesis using j by simp
    qed
    have "findall_from 0 before (c # cs) = w # findall_from j (Some c) cs"
      using m True tw j by (simp del: takeWhile.simps dropWhile.simps)
    also have "findall_from j (Some c) cs = findall_from 0 None r"
    proof (cases j)
      case 0
      then have "cs = r" using drj by simp
      then show ?thesis using 0 rr by (metis findall_from_restart)
    next
      case (Suc i)
      have "findall_from j (Some c) cs = findall_from 0 (Some (last (take j cs))) (drop j cs)"
        using Suc le by (intro findall_from_skip) simp_all
      also have "\<dots> = findall_from 0 None r"
        unfolding drj using rr by (rule findall_from_restart)
      finally show ?thesis .
    qed
    finally show ?thesis using True by simp
  next
    case False
    have "findall_from 0 before (c # cs) = findall_from 0 (Some c) cs"
      using m False by simp
    also have "\<dots> = findall_from 0 None (dropWhile is_word cs)"
      by (intro findall_from_inside) (simp add: assms(2))
    also have "dropWhile is_word cs = r" using assms(2) by (simp add: r_def)
    finally show ?thesis using False by simp
  qed
  then show ?thesis by (simp only: w_def r_def)
qed

lemma word_runs_from_run:
  "word_runs_from cur s =
     (if cur @ takeWhile is_word s = [] then [] else [cur @ takeWhile is_word s])
     @ word_runs_from [] (dropWhile is_word s)"
  by (induction s arbitrary: cur) auto

lemma findall_word_runs:
  "\<not> word_at before \<Longrightarrow> findall_from 0 before s = filter is_symbol (word_runs_from [] s)"
proof (induction "length s" arbitrary: s before rule: less_induct)
  case less
  show ?case
  proof (cases s)
    case Nil
    then show ?thesis by simp
  next
    case (Cons c cs)
    show ?thesis
    proof (cases "is_word c")
      case False
      have "findall_from 0 before (c # cs) = findall_from 0 (Some c) cs"
        using False by (simp add: match_ticker_nonword)
      also have "\<dots> = filter is_symbol (word_runs_from [] cs)"
        using False Cons by (intro less.hyps) simp_all
      finally show ?thesis using False Cons by simp
    next
      case True
      let ?w = "takeWhile is_word (c # cs)"
      let ?r = "dropWhile is_word (c # cs)"
      have "length ?r < length s"
        using True Cons by (simp add: le_imp_less_Suc length_dropWhile_le)
      then have ih: "findall_from 0 None ?r = filter is_symbol (word_runs_from [] ?r)"
        by (intro less.hyps) simp_all
      have "word_runs_from [] (c # cs) = [?w] @ word_runs_from [] ?r"
        using True word_runs_from_run [of "[]" "c # cs"] by simp
      moreover have "findall_from 0 before (c # cs) = filter is_symbol [?w] @ findall_from 0 None ?r"
        using less.prems True by (rule findall_from_run)
      ultimately show ?thesis using ih Cons by (simp del: takeWhile.simps dropWhile.simps)
    qed
  qed
qed

lemma findall_tickers_tokens: "findall_tickers text = symbol_tokens text"
  by (simp add: findall_tickers_def symbol_tokens_def word_runs_def findall_word_runs)

text \<open>
  C6, as amended. For a text without the marker (in any letter case) the extraction
  returns the empty list. For a text with the marker it returns the symbol tokens of
  the text that are no excluded words, in the order of the text and as often as they
  occur: as a set, the result is the reference set, but a symbol that occurs twice in
  the text occurs twice in the result.
\<close>

theorem extract_is_reference_with_repeats:
  "extract_ticker_symbols text =
     (if has_marker text
      then filter (\<lambda>t. t \<notin> set excluded_words) (symbol_tokens text)
      else [])
   \<and> set (extract_ticker_symbols text) = set (reference_extract text)"
  by (simp add: extract_ticker_symbols_def reference_extract_def has_marker_def
      findall_tickers_tokens)

text \<open>
  C6 as stated fails on an alert that names a symbol twice: the result holds it twice,
  where the reference holds it once.
\<close>

theorem extract_keeps_repeats:
  "extract_ticker_symbols ''BBAuto alert: NEW symbol AAPL was added, AAPL''
     = [''AAPL'', ''AAPL'']
   \<and> reference_extract ''BBAuto alert: NEW symbol AAPL was added, AAPL'' = [''AAPL'']"
  by code_simp


section \<open>The order of validation and queue writes\<close>

lemma remove_ticker_trace:
  "\<exists>p. trace (remove_ticker_from_scanner t w) = trace w @ p \<and> list_all is_scanner_write p"
  by (cases "scanner_file w") (simp_all add: remove_ticker_from_scanner_def Let_def)

lemma scanner_write_is_write: "list_all is_scanner_write p \<Longrightarrow> list_all is_write p"
proof (induction p)
  case Nil
  then show ?case by simp
next
  case (Cons e p)
  then show ?case by (cases e) simp_all
qed

lemma add_to_watchlist_trace:
  "\<exists>p. trace (add_to_watchlist t limit_price w) = trace w @ p \<and> list_all is_write p"
  by (cases "t \<in> get_watchlist_symbols w") (simp_all add: add_to_watchlist_def Let_def)

lemma add_to_watchlist_frame:
  "scanner_file (add_to_watchlist t limit_price w) = scanner_file w"
  "open_positions (add_to_watchlist t limit_price w) = open_positions w"
  by (simp_all add: add_to_watchlist_def Let_def)

lemma scan_scanner_lines_frame:
  "watchlist_file (snd (scan_scanner_lines ls w)) = watchlist_file w
   \<and> open_positions (snd (scan_scanner_lines ls w)) = open_positions w
   \<and> (\<exists>drops. trace (snd (scan_scanner_lines ls w)) = trace w @ drops
                 \<and> list_all is_scanner_write drops)"
proof (induction ls arbitrary: w)
  case Nil
  then show ?case by simp
next
  case (Cons l ls)
  let ?t = "str_upper (hd (str_split (str_strip l)))"
  let ?w' = "remove_ticker_from_scanner ?t w"
  show ?case
  proof (cases "str_strip l = []")
    case True
    then show ?thesis using Cons.IH [of w] by simp
  next
    case False
    show ?thesis
    proof (cases "?t \<in> open_positions w")
      case False
      then show ?thesis using \<open>str_strip l \<noteq> []\<close> by (simp add: Let_def)
    next
      case True
      obtain p where p: "trace ?w' = trace w @ p" "list_all is_scanner_write p"
        using remove_ticker_trace by blast
      obtain drops where d: "trace (snd (scan_scanner_lines ls ?w')) = trace ?w' @ drops"
          "list_all is_scanner_write drops"
        using Cons.IH [of ?w'] by blast
      have "trace (snd (scan_scanner_lines ls ?w')) = trace w @ (p @ drops)"
        using p d by simp
      moreover have "list_all is_scanner_write (p @ drops)" using p d by simp
      ultimately have "\<exists>drops. trace (snd (scan_scanner_lines ls ?w')) = trace w @ drops
                 \<and> list_all is_scanner_write drops" by blast
      moreover have "watchlist_file (snd (scan_scanner_lines ls ?w')) = watchlist_file w"
        "open_positions (snd (scan_scanner_lines ls ?w')) = open_positions w"
        using Cons.IH [of ?w'] by (simp_all add: remove_ticker_frame)
      ultimately show ?thesis using True \<open>str_strip l \<noteq> []\<close> by (simp add: Let_def)
    qed
  qed
qed

lemma scan_scanner_lines_no_drop:
  "list_all (\<lambda>l. str_strip l = [] \<or> str_upper (hd (str_split (str_strip l))) \<notin> open_positions w) ls
     \<Longrightarrow> snd (scan_scanner_lines ls w) = w"
  by (induction ls) (auto simp: Let_def)

lemma get_first_frame:
  "watchlist_file (snd (get_first_ticker_from_scanner w)) = watchlist_file w
   \<and> open_positions (snd (get_first_ticker_from_scanner w)) = open_positions w
   \<and> (\<exists>drops. trace (snd (get_first_ticker_from_scanner w)) = trace w @ drops
                 \<and> list_all is_scanner_write drops)"
  using scan_scanner_lines_frame
  by (cases "scanner_file w") (simp_all add: get_first_ticker_from_scanner_def)

lemma get_first_no_drop:
  assumes "scanner_symbols w \<inter> open_positions w = {}"
  shows "snd (get_first_ticker_from_scanner w) = w"
proof (cases "scanner_file w")
  case None
  then show ?thesis by (simp add: get_first_ticker_from_scanner_def)
next
  case (Some content)
  have "str_strip l = [] \<or> str_upper (hd (str_split (str_strip l))) \<notin> open_positions w"
    if "l \<in> set (readlines content)" for l
  proof (cases "str_strip l = []")
    case True
    then show ?thesis by simp
  next
    case False
    then have "\<not> blank l" by (simp add: str_strip_empty_iff)
    then have "str_split l \<noteq> []" by (rule str_split_first(1))
    then have "str_upper (hd (str_split l)) \<in> load_symbols content"
      using that False by (auto simp: load_symbols_def)
    then have "str_upper (hd (str_split l)) \<notin> open_positions w"
      using assms Some by (auto simp: scanner_symbols_def)
    then show ?thesis by (simp add: str_split_strip)
  qed
  then have "snd (scan_scanner_lines (readlines content) w) = w"
    by (intro scan_scanner_lines_no_drop) (simp add: list_all_iff)
  then show ?thesis using Some by (simp add: get_first_ticker_from_scanner_def)
qed

lemma process_next_ticker_trace:
  "\<exists>fetches post.
     trace (process_next_ticker market w)
       = trace (snd (get_first_ticker_from_scanner w)) @ fetches @ post
     \<and> list_all is_fetch fetches \<and> list_all is_write post"
proof -
  obtain sel w1 where g: "get_first_ticker_from_scanner w = (sel, w1)" by (metis surj_pair)
  show ?thesis
  proof (cases sel)
    case None
    then have "trace (process_next_ticker market w)
        = trace (snd (get_first_ticker_from_scanner w)) @ [] @ []
        \<and> list_all is_fetch [] \<and> list_all is_write []"
      using g by (simp add: process_next_ticker_def)
    then show ?thesis by blast
  next
    case (Some ticker)
    define w2 where "w2 = snd (validate_ema_criteria market ticker w1)"
    define is_valid where "is_valid = fst (fst (validate_ema_criteria market ticker w1))"
    define limit_price where "limit_price =
      (case snd (fst (validate_ema_criteria market ticker w1)) of None \<Rightarrow> 0 | Some v \<Rightarrow> low_price v)"
    obtain fetches where f: "trace w2 = trace w1 @ fetches" "list_all is_fetch fetches"
      unfolding w2_def using validate_trace by blast
    have p: "process_next_ticker market w =
        (if is_valid then remove_ticker_from_scanner ticker (add_to_watchlist ticker limit_price w2)
         else remove_ticker_from_scanner ticker w2)"
      using g Some
      by (simp add: process_next_ticker_def w2_def is_valid_def limit_price_def case_prod_beta)
    obtain a where a: "trace (add_to_watchlist ticker limit_price w2) = trace w2 @ a"
        "list_all is_write a"
      using add_to_watchlist_trace by blast
    obtain r1 where r1: "trace (remove_ticker_from_scanner ticker (add_to_watchlist ticker limit_price w2))
        = trace (add_to_watchlist ticker limit_price w2) @ r1" "list_all is_write r1"
      using remove_ticker_trace scanner_write_is_write by blast
    obtain r2 where r2: "trace (remove_ticker_from_scanner ticker w2) = trace w2 @ r2"
        "list_all is_write r2"
      using remove_ticker_trace scanner_write_is_write by blast
    show ?thesis
    proof (cases is_valid)
      case True
      then have "trace (process_next_ticker market w) = trace w1 @ fetches @ (a @ r1)"
        using p f a r1 by simp
      moreover have "list_all is_write (a @ r1)" using a r1 by simp
      ultimately show ?thesis using f(2) g by (metis snd_conv)
    next
      case False
      then have "trace (process_next_ticker market w) = trace w1 @ fetches @ r2"
        using p f r2 by simp
      then show ?thesis using f(2) r2(2) g by (metis snd_conv)
    qed
  qed
qed

text \<open>
  C10, as amended. \<^verbatim>\<open>validate_ema_criteria\<close> writes to no queue file and does not
  change the open positions: it only requests price histories. In
  \<^verbatim>\<open>process_next_ticker\<close> the watchlist is untouched until the validation has
  returned, and the trace of the call is: rewrites of the scanner file made by the
  selection (which drops the entries that are open positions), then the requests of
  the validation, then the writes that follow it (the watchlist append and the removal
  of the validated ticker). When the scanner queue names no open position, the
  selection writes nothing, and every write comes after the validation.
\<close>

theorem validation_reads_only:
  "scanner_file (snd (validate_ema_criteria market ticker w)) = scanner_file w
   \<and> watchlist_file (snd (validate_ema_criteria market ticker w)) = watchlist_file w
   \<and> open_positions (snd (validate_ema_criteria market ticker w)) = open_positions w
   \<and> (\<exists>fetches. trace (snd (validate_ema_criteria market ticker w)) = trace w @ fetches
         \<and> list_all is_fetch fetches)
   \<and> watchlist_file (snd (get_first_ticker_from_scanner w)) = watchlist_file w
   \<and> (\<exists>drops fetches post.
         trace (snd (get_first_ticker_from_scanner w)) = trace w @ drops
         \<and> trace (process_next_ticker market w) = trace w @ drops @ fetches @ post
         \<and> list_all is_scanner_write drops \<and> list_all is_fetch fetches \<and> list_all is_write post
         \<and> (scanner_symbols w \<inter> open_positions w = {} \<longrightarrow> drops = []))"
proof -
  obtain drops where d: "trace (snd (get_first_ticker_from_scanner w)) = trace w @ drops"
      "list_all is_scanner_write drops"
    using get_first_frame by blast
  obtain fetches post where t: "trace (process_next_ticker market w)
       = trace (snd (get_first_ticker_from_scanner w)) @ fetches @ post"
      "list_all is_fetch fetches" "list_all is_write post"
    using process_next_ticker_trace by blast
  have n: "drops = []" if "scanner_symbols w \<inter> open_positions w = {}"
    using get_first_no_drop [OF that] d(1) by simp
  have "trace (process_next_ticker market w) = trace w @ drops @ fetches @ post"
    using d t by simp
  then have "\<exists>drops fetches post.
         trace (snd (get_first_ticker_from_scanner w)) = trace w @ drops
         \<and> trace (process_next_ticker market w) = trace w @ drops @ fetches @ post
         \<and> list_all is_scanner_write drops \<and> list_all is_fetch fetches \<and> list_all is_write post
         \<and> (scanner_symbols w \<inter> open_positions w = {} \<longrightarrow> drops = [])"
    using d t n by blast
  then show ?thesis
    using validate_files [of market ticker w] validate_trace [of market ticker w]
      get_first_frame [of w] by blast
qed

lemma trace_failing_market:
  "process_next_ticker failing_market aapl_held_msft_queued
     = \<lparr>scanner_file = Some [], watchlist_file = Some [], open_positions = {''AAPL''},
        trace = [Write_scanner ''MSFT\<newline>'', Fetch_history ''MSFT'' 0,
                 Fetch_history ''MSFT'' 1, Write_scanner []]\<rparr>"
  by (simp add: process_next_ticker_def get_first_ticker_from_scanner_def
      aapl_held_msft_queued_def remove_ticker_from_scanner_def validate_ema_criteria_def
      download_historical_data_def max_retries_def numeral_2_eq_2 failing_market_def
      validate_history_def Let_def eval_text)

text \<open>
  C10 as stated fails when an open position stands before the selected entry: the
  scanner file is rewritten, to drop AAPL, before the history of MSFT is requested.
\<close>

theorem write_before_validation:
  "trace (process_next_ticker failing_market aapl_held_msft_queued)
     = [Write_scanner ''MSFT\<newline>'', Fetch_history ''MSFT'' 0,
        Fetch_history ''MSFT'' 1, Write_scanner []]
   \<and> \<not> writes_after_validation (trace (process_next_ticker failing_market aapl_held_msft_queued))"
  by (simp add: trace_failing_market writes_after_validation_def)

theorem validation_reads_only_witness:
  "scanner_symbols aapl_queued \<inter> open_positions aapl_queued = {}
   \<and> snd (get_first_ticker_from_scanner aapl_queued) = aapl_queued
   \<and> scanner_file (snd (validate_ema_criteria breakout_market ''AAPL'' aapl_queued))
       = Some ''AAPL\<newline>''
   \<and> writes_after_validation (trace (process_next_ticker breakout_market aapl_queued))"
proof -
  have o: "scanner_symbols aapl_queued \<inter> open_positions aapl_queued = {}"
    by (simp add: aapl_queued_def)
  note inst = validation_reads_only [of breakout_market "''AAPL''" aapl_queued]
  have t0: "trace aapl_queued = []" by (simp add: aapl_queued_def)
  from inst obtain drops fetches post where
    d: "trace (snd (get_first_ticker_from_scanner aapl_queued)) = trace aapl_queued @ drops"
    and t: "trace (process_next_ticker breakout_market aapl_queued)
          = trace aapl_queued @ drops @ fetches @ post"
    and f: "list_all is_fetch fetches" and p: "list_all is_write post"
    and n: "scanner_symbols aapl_queued \<inter> open_positions aapl_queued = {} \<longrightarrow> drops = []"
    by blast
  have "drops = []" using n o by simp
  then have tr: "trace (process_next_ticker breakout_market aapl_queued) = fetches @ post"
    using t t0 by simp
  have "list_all is_write (dropWhile is_fetch (fetches @ post))"
    using f p
  proof (induction fetches)
    case Nil
    have "list_all is_write (dropWhile is_fetch post)"
      using Nil(2) by (auto simp: list_all_iff dest: set_dropWhileD)
    then show ?case by simp
  next
    case (Cons e fetches)
    then show ?case by simp
  qed
  then have w: "writes_after_validation (trace (process_next_ticker breakout_market aapl_queued))"
    by (simp add: writes_after_validation_def tr)
  have s: "scanner_file (snd (validate_ema_criteria breakout_market ''AAPL'' aapl_queued))
       = Some ''AAPL\<newline>''"
    using inst by (simp add: aapl_queued_def)
  show ?thesis using o w s select_aapl by simp
qed


section \<open>Open positions and the watchlist\<close>

lemma readlines_from_append:
  "c \<noteq> [] \<Longrightarrow> last c = CHR 0x0A \<Longrightarrow>
     readlines_from cur (c @ s) = readlines_from cur c @ readlines_from [] s"
proof (induction c arbitrary: cur)
  case Nil
  then show ?case by simp
next
  case (Cons x xs)
  show ?case
  proof (cases "xs = []")
    case True
    then show ?thesis using Cons.prems by (simp add: readlines_def)
  next
    case False
    then have "last xs = CHR 0x0A" using Cons.prems by simp
    then have "readlines_from cur' (xs @ s) = readlines_from cur' xs @ readlines_from [] s" for cur'
      using False by (intro Cons.IH)
    then show ?thesis by simp
  qed
qed

lemma readlines_append:
  "c = [] \<or> last c = CHR 0x0A \<Longrightarrow> readlines (c @ s) = readlines c @ readlines s"
  by (cases "c = []") (simp_all add: readlines_def readlines_from_append)

lemma load_symbols_append:
  "c = [] \<or> last c = CHR 0x0A \<Longrightarrow> load_symbols (c @ s) = load_symbols c \<union> load_symbols s"
  by (simp add: load_symbols_def readlines_append)

lemma to_upper_idem: "to_upper (to_upper c) = to_upper c"
proof (cases "is_lower c")
  case True
  then have "\<not> is_lower (to_upper c)"
    by (auto simp: is_lower_def ord_to_upper)
  then show ?thesis by (simp add: to_upper_def)
next
  case False
  then show ?thesis by (simp add: to_upper_def)
qed

lemma str_upper_idem: "str_upper (str_upper t) = str_upper t"
  by (simp add: str_upper_def to_upper_idem)

lemma first_token_props:
  assumes "\<not> blank l"
  shows "first_token l \<noteq> []" and "list_all (\<lambda>c. \<not> is_space c) (first_token l)"
proof -
  have "dropWhile is_space l \<noteq> []"
    using assms by (simp add: blank_def list_all_iff dropWhile_eq_Nil_conv)
  moreover from this have "\<not> is_space (hd (dropWhile is_space l))" by (rule hd_dropWhile)
  ultimately show "first_token l \<noteq> []"
    by (cases "dropWhile is_space l") (simp_all add: first_token_def)
  show "list_all (\<lambda>c. \<not> is_space c) (first_token l)"
    by (auto simp: first_token_def list_all_iff dest: set_takeWhileD)
qed

lemma selected_ticker_props:
  assumes "str_strip l \<noteq> []"
  shows "str_upper (hd (str_split (str_strip l))) \<noteq> []"
    and "list_all (\<lambda>c. \<not> is_space c) (str_upper (hd (str_split (str_strip l))))"
proof -
  have nb: "\<not> blank l" using assms by (simp add: str_strip_empty_iff)
  have h: "hd (str_split (str_strip l)) = first_token l"
    using nb by (simp add: str_split_strip str_split_first(2))
  show "str_upper (hd (str_split (str_strip l))) \<noteq> []"
    using first_token_props(1) [OF nb] by (simp add: h str_upper_def)
  show "list_all (\<lambda>c. \<not> is_space c) (str_upper (hd (str_split (str_strip l))))"
    using first_token_props(2) [OF nb]
    by (simp add: h str_upper_def list_all_iff is_space_to_upper)
qed

lemma scan_selected:
  "scan_scanner_lines ls w = (Some t, w1) \<Longrightarrow>
     t \<notin> open_positions w \<and> t \<noteq> [] \<and> list_all (\<lambda>c. \<not> is_space c) t \<and> str_upper t = t"
proof (induction ls arbitrary: w)
  case Nil
  then show ?case by simp
next
  case (Cons l ls)
  let ?t = "str_upper (hd (str_split (str_strip l)))"
  show ?case
  proof (cases "str_strip l = []")
    case True
    then show ?thesis using Cons by simp
  next
    case False
    show ?thesis
    proof (cases "?t \<in> open_positions w")
      case True
      then have "scan_scanner_lines ls (remove_ticker_from_scanner ?t w) = (Some t, w1)"
        using Cons.prems False by (simp add: Let_def)
      then show ?thesis using Cons.IH by (fastforce simp: remove_ticker_frame)
    next
      case notin: False
      then have "t = ?t" using Cons.prems False by (simp add: Let_def)
      then show ?thesis
        using notin selected_ticker_props [OF False] by (simp add: str_upper_idem)
    qed
  qed
qed

lemma get_first_selected:
  assumes "get_first_ticker_from_scanner w = (Some t, w1)"
  shows "t \<notin> open_positions w \<and> t \<noteq> [] \<and> list_all (\<lambda>c. \<not> is_space c) t \<and> str_upper t = t"
proof (cases "scanner_file w")
  case None
  then show ?thesis using assms by (simp add: get_first_ticker_from_scanner_def)
next
  case (Some content)
  then have "scan_scanner_lines (readlines content) w = (Some t, w1)"
    using assms by (simp add: get_first_ticker_from_scanner_def)
  then show ?thesis by (rule scan_selected)
qed

lemma digit_char_no_newline: "digit_char d \<noteq> CHR 0x0A"
proof -
  have "d mod 10 < length ''0123456789''" by simp
  then have "''0123456789'' ! (d mod 10) \<in> set ''0123456789''" by (rule nth_mem)
  then show ?thesis unfolding digit_char_def by auto
qed

lemma digits_no_newline: "CHR 0x0A \<notin> set (digits n)"
proof (induction n rule: digits.induct)
  case (1 n)
  show ?case
  proof (cases "n < 10")
    case True
    then show ?thesis using digit_char_no_newline [of n] by (subst digits.simps) auto
  next
    case False
    then show ?thesis
      using 1 digit_char_no_newline [of n] by (subst digits.simps) auto
  qed
qed

lemma format_2f_no_newline: "CHR 0x0A \<notin> set (format_2f x)"
  by (simp add: format_2f_def Let_def digits_no_newline digit_char_no_newline
      digit_char_no_newline [symmetric])

lemma load_symbols_watchlist_line:
  assumes "t \<noteq> []" and "list_all (\<lambda>c. \<not> is_space c) t"
  shows "load_symbols (watchlist_line t p) = {str_upper t}"
proof -
  let ?l = "watchlist_line t p"
  have nl: "CHR 0x0A \<notin> set t" using assms(2) newline_is_space by (auto simp: list_all_iff)
  have b: "butlast ?l = t @ '' '' @ format_2f p"
    unfolding watchlist_line_def by (simp add: butlast_append)
  have ok: "line_ok ?l"
    unfolding line_ok_def b using nl format_2f_no_newline by (simp add: watchlist_line_def)
  have r: "readlines ?l = [?l]"
    using readlines_from_last_line [OF ok, of "[]"] by (simp add: readlines_def)
  have h: "\<not> is_space (hd t)" using assms by (cases t) simp_all
  have sp: "is_space (CHR '' '')" by (simp add: is_space_def ord_def)
  have d: "dropWhile is_space ?l = ?l"
    using h assms(1) by (intro dropWhile_hd) (simp add: watchlist_line_def)
  have "takeWhile (\<lambda>c. \<not> is_space c) (t @ (CHR '' '' # format_2f p @ [CHR 0x0A])) = t"
    using assms(2) sp by (simp add: takeWhile_append2 list_all_iff)
  then have ft: "first_token ?l = t" by (simp add: first_token_def d) (simp add: watchlist_line_def)
  have nb: "\<not> blank ?l"
    using h assms(1) by (cases t) (simp_all add: blank_def watchlist_line_def)
  have s: "str_strip ?l \<noteq> []" using nb by (simp add: str_strip_empty_iff)
  show ?thesis
    using s str_split_first [OF nb] by (simp add: load_symbols_def r ft)
qed

lemma add_to_watchlist_symbols:
  assumes "terminated (watchlist_file w)" and "t \<noteq> []" and "list_all (\<lambda>c. \<not> is_space c) t"
  shows "get_watchlist_symbols (add_to_watchlist t p w) \<subseteq> insert (str_upper t) (get_watchlist_symbols w)"
    and "terminated (watchlist_file (add_to_watchlist t p w))"
proof -
  let ?old = "case watchlist_file w of None \<Rightarrow> [] | Some content \<Rightarrow> content"
  have o: "?old = [] \<or> last ?old = CHR 0x0A"
    using assms(1) by (simp add: terminated_def split: option.splits)
  have l: "load_symbols (?old @ watchlist_line t p) = load_symbols ?old \<union> {str_upper t}"
    using o assms(2,3) by (simp add: load_symbols_append load_symbols_watchlist_line)
  have e: "load_symbols [] = {}" by (simp add: load_symbols_def readlines_def)
  have g: "load_symbols ?old = get_watchlist_symbols w"
    by (simp add: get_watchlist_symbols_def e split: option.splits)
  have a: "watchlist_file (add_to_watchlist t p w) =
      (if t \<in> get_watchlist_symbols w then watchlist_file w else Some (?old @ watchlist_line t p))"
    by (simp add: add_to_watchlist_def Let_def watchlist_line_def)
  show "get_watchlist_symbols (add_to_watchlist t p w) \<subseteq> insert (str_upper t) (get_watchlist_symbols w)"
  proof (cases "t \<in> get_watchlist_symbols w")
    case True
    then show ?thesis using a by (auto simp: get_watchlist_symbols_def)
  next
    case False
    then have "get_watchlist_symbols (add_to_watchlist t p w) = load_symbols (?old @ watchlist_line t p)"
      using a by (simp add: get_watchlist_symbols_def)
    then show ?thesis using l g by auto
  qed
  show "terminated (watchlist_file (add_to_watchlist t p w))"
    using a assms(1) by (simp add: terminated_def watchlist_line_def)
qed

lemma update_scanner_file_frame:
  "watchlist_file (update_scanner_file order tickers w) = watchlist_file w"
  "open_positions (update_scanner_file order tickers w) = open_positions w"
  by (simp_all add: update_scanner_file_def Let_def)

lemma check_email_frame:
  "watchlist_file (check_email_for_tickers order contents w) = watchlist_file w
   \<and> open_positions (check_email_for_tickers order contents w) = open_positions w"
  by (induction contents arbitrary: w) (simp_all add: Let_def update_scanner_file_frame)

lemma process_next_ticker_watchlist:
  assumes "terminated (watchlist_file w)"
  shows "terminated (watchlist_file (process_next_ticker market w))"
    and "open_positions (process_next_ticker market w) = open_positions w"
    and "get_watchlist_symbols (process_next_ticker market w)
           \<subseteq> get_watchlist_symbols w \<union> - open_positions w"
proof -
  obtain sel w1 where g: "get_first_ticker_from_scanner w = (sel, w1)" by (metis surj_pair)
  have w1: "watchlist_file w1 = watchlist_file w" "open_positions w1 = open_positions w"
    using get_first_frame [of w] g by simp_all
  have goal: "terminated (watchlist_file (process_next_ticker market w))
     \<and> open_positions (process_next_ticker market w) = open_positions w
     \<and> get_watchlist_symbols (process_next_ticker market w)
           \<subseteq> get_watchlist_symbols w \<union> - open_positions w"
  proof (cases sel)
    case None
    then have "process_next_ticker market w = w1" using g by (simp add: process_next_ticker_def)
    then show ?thesis using w1 assms by (simp add: get_watchlist_symbols_def)
  next
    case (Some t)
    define w2 where "w2 = snd (validate_ema_criteria market t w1)"
    define is_valid where "is_valid = fst (fst (validate_ema_criteria market t w1))"
    define p where "p =
      (case snd (fst (validate_ema_criteria market t w1)) of None \<Rightarrow> 0 | Some v \<Rightarrow> low_price v)"
    have w2: "watchlist_file w2 = watchlist_file w" "open_positions w2 = open_positions w"
      unfolding w2_def using validate_files [of market t w1] w1 by simp_all
    have pr: "process_next_ticker market w =
        (if is_valid then remove_ticker_from_scanner t (add_to_watchlist t p w2)
         else remove_ticker_from_scanner t w2)"
      using g Some
      by (simp add: process_next_ticker_def w2_def is_valid_def p_def case_prod_beta)
    have sel: "t \<notin> open_positions w" "t \<noteq> []" "list_all (\<lambda>c. \<not> is_space c) t" "str_upper t = t"
      using get_first_selected [of w t w1] g Some by simp_all
    have t2: "terminated (watchlist_file w2)" using assms w2 by simp
    have s2: "get_watchlist_symbols w2 = get_watchlist_symbols w"
      using w2 by (simp add: get_watchlist_symbols_def)
    show ?thesis
    proof (cases is_valid)
      case True
      have "get_watchlist_symbols (add_to_watchlist t p w2) \<subseteq> insert t (get_watchlist_symbols w)"
        using add_to_watchlist_symbols(1) [OF t2 sel(2,3), of p] sel(4) s2 by simp
      then have "get_watchlist_symbols (add_to_watchlist t p w2)
          \<subseteq> get_watchlist_symbols w \<union> - open_positions w"
        using sel(1) by auto
      moreover have "get_watchlist_symbols (process_next_ticker market w)
          = get_watchlist_symbols (add_to_watchlist t p w2)"
        using True pr by (simp add: get_watchlist_symbols_def remove_ticker_frame)
      ultimately show ?thesis
        using True pr add_to_watchlist_symbols(2) [OF t2 sel(2,3), of p] w2
        by (simp add: remove_ticker_frame add_to_watchlist_frame)
    next
      case False
      then show ?thesis
        using pr t2 w2 s2 by (auto simp: remove_ticker_frame get_watchlist_symbols_def)
    qed
  qed
  show "terminated (watchlist_file (process_next_ticker market w))"
    and "open_positions (process_next_ticker market w) = open_positions w"
    and "get_watchlist_symbols (process_next_ticker market w)
           \<subseteq> get_watchlist_symbols w \<union> - open_positions w"
    using goal by simp_all
qed

lemma cycle_watchlist:
  assumes "terminated (watchlist_file w)"
  shows "terminated (watchlist_file (cycle inp w))"
    and "get_watchlist_symbols (cycle inp w)
           \<subseteq> get_watchlist_symbols w \<union> - open_positions (cycle inp w)"
    and "open_positions (cycle inp w)
           = (case positions_file inp of None \<Rightarrow> open_positions w
              | Some content \<Rightarrow> load_symbols content)"
proof -
  let ?w1 = "reload_positions (positions_file inp) w"
  let ?w2 = "check_email_for_tickers (set_order inp) (messages inp) ?w1"
  have r: "watchlist_file ?w1 = watchlist_file w"
    "open_positions ?w1 = (case positions_file inp of None \<Rightarrow> open_positions w
              | Some content \<Rightarrow> load_symbols content)"
    by (simp_all add: reload_positions_def split: option.splits)
  have e: "watchlist_file ?w2 = watchlist_file w" "open_positions ?w2 = open_positions ?w1"
    using check_email_frame [of "set_order inp" "messages inp" ?w1] r(1) by simp_all
  have t: "terminated (watchlist_file ?w2)" using assms e by simp
  have s: "get_watchlist_symbols ?w2 = get_watchlist_symbols w"
    using e by (simp add: get_watchlist_symbols_def)
  have c: "cycle inp w = process_next_ticker (market_data inp) ?w2" by (simp add: cycle_def)
  show "terminated (watchlist_file (cycle inp w))"
    unfolding c using t by (rule process_next_ticker_watchlist(1))
  show o: "open_positions (cycle inp w)
           = (case positions_file inp of None \<Rightarrow> open_positions w
              | Some content \<Rightarrow> load_symbols content)"
    unfolding c using process_next_ticker_watchlist(2) [OF t] e r by simp
  have "open_positions (cycle inp w) = open_positions ?w2"
    unfolding c using t by (rule process_next_ticker_watchlist(2))
  then show "get_watchlist_symbols (cycle inp w)
           \<subseteq> get_watchlist_symbols w \<union> - open_positions (cycle inp w)"
    unfolding c using process_next_ticker_watchlist(3) [OF t, of "market_data inp"] s by simp
qed

lemma run_watchlist:
  assumes "terminated (watchlist_file w)"
    and "get_watchlist_symbols w \<inter> open_positions w = {}"
    and "list_all (positions_stay (open_positions w)) inps"
  shows "open_positions (run inps w) = open_positions w
    \<and> get_watchlist_symbols (run inps w) \<inter> open_positions w = {}
    \<and> terminated (watchlist_file (run inps w))"
  using assms
proof (induction inps arbitrary: w)
  case Nil
  then show ?case by simp
next
  case (Cons inp inps)
  let ?w' = "cycle inp w"
  have o: "open_positions ?w' = open_positions w"
    using cycle_watchlist(3) [OF Cons.prems(1), of inp] Cons.prems(3)
    by (simp add: positions_stay_def split: option.splits)
  have t: "terminated (watchlist_file ?w')"
    using Cons.prems(1) by (rule cycle_watchlist(1))
  have "get_watchlist_symbols ?w' \<subseteq> get_watchlist_symbols w \<union> - open_positions ?w'"
    using Cons.prems(1) by (rule cycle_watchlist(2))
  then have d: "get_watchlist_symbols ?w' \<inter> open_positions ?w' = {}"
    using Cons.prems(2) o by auto
  have s: "list_all (positions_stay (open_positions ?w')) inps"
    using Cons.prems(3) o by simp
  show ?case using Cons.IH [OF t d s] o by simp
qed


text \<open>
  C1, as amended. Let the watchlist file be terminated and hold no open position, and
  let the open positions be the same set in every cycle. Then after any number of
  cycles the open positions are that set and none of them is in the watchlist. In
  every cycle, whatever the positions file holds then, each symbol the cycle adds to
  the watchlist is outside the open positions loaded in that cycle: an entry that is
  an open position is dropped and never added.
\<close>

theorem watchlist_avoids_fixed_open_positions:
  assumes "terminated (watchlist_file w)"
    and "get_watchlist_symbols w \<inter> open_positions w = {}"
    and "list_all (positions_stay (open_positions w)) inps"
  shows "open_positions (run inps w) = open_positions w
    \<and> get_watchlist_symbols (run inps w) \<inter> open_positions (run inps w) = {}
    \<and> get_watchlist_symbols (cycle inp w)
         \<subseteq> get_watchlist_symbols w \<union> - open_positions (cycle inp w)"
proof -
  have r: "open_positions (run inps w) = open_positions w
    \<and> get_watchlist_symbols (run inps w) \<inter> open_positions w = {}
    \<and> terminated (watchlist_file (run inps w))"
    using assms by (rule run_watchlist)
  have "get_watchlist_symbols (cycle inp w)
         \<subseteq> get_watchlist_symbols w \<union> - open_positions (cycle inp w)"
    using assms(1) by (rule cycle_watchlist(2))
  then show ?thesis using r by simp
qed

subsection \<open>Two cycles on the breakout scenario\<close>

lemma validate_breakout:
  "\<exists>v. validate_ema_criteria breakout_market ticker w
         = ((True, Some v), w\<lparr>trace := trace w @ [Fetch_history ticker 0]\<rparr>)
       \<and> low_price v = 19 / 2"
proof -
  have n: "100 \<le> length breakout_history" by (simp add: breakout_history_def)
  have "fst (validate_history (Some breakout_history))"
    using validate_history_long(1) [OF n] three_checks_breakout by simp
  moreover have "map_option low_price (snd (validate_history (Some breakout_history))) = Some (19 / 2)"
    using validate_history_long(2) [OF n] by (simp add: breakout_history_def breakout_bar_def)
  ultimately obtain v where "validate_history (Some breakout_history) = (True, Some v)"
    and "low_price v = 19 / 2"
    by (cases "validate_history (Some breakout_history)") auto
  then show ?thesis by (simp add: validate_unfold download_breakout)
qed

lemma load_symbols_empty: "load_symbols [] = {}"
  by (simp add: load_symbols_def readlines_def)

lemma process_aapl:
  assumes "''AAPL'' \<notin> held"
  shows "process_next_ticker breakout_market (aapl_queued_holding held)
     = \<lparr>scanner_file = Some [], watchlist_file = Some ''AAPL 9.50\<newline>'',
        open_positions = held,
        trace = [Fetch_history ''AAPL'' 0, Append_watchlist ''AAPL 9.50\<newline>'',
                 Write_scanner []]\<rparr>"
proof -
  let ?w = "aapl_queued_holding held"
  have sel: "get_first_ticker_from_scanner ?w = (Some ''AAPL'', ?w)"
    using assms
    by (simp add: get_first_ticker_from_scanner_def aapl_queued_holding_def Let_def eval_text)
  obtain v where v: "validate_ema_criteria breakout_market ''AAPL'' ?w
         = ((True, Some v), ?w\<lparr>trace := trace ?w @ [Fetch_history ''AAPL'' 0]\<rparr>)"
    and low: "low_price v = 19 / 2"
    using validate_breakout [of "''AAPL''" ?w] by blast
  have "process_next_ticker breakout_market ?w
      = remove_ticker_from_scanner ''AAPL''
          (add_to_watchlist ''AAPL'' (19 / 2) (?w\<lparr>trace := trace ?w @ [Fetch_history ''AAPL'' 0]\<rparr>))"
    by (simp add: process_next_ticker_def sel v low)
  also have "add_to_watchlist ''AAPL'' (19 / 2) (?w\<lparr>trace := trace ?w @ [Fetch_history ''AAPL'' 0]\<rparr>)
      = \<lparr>scanner_file = Some ''AAPL\<newline>'', watchlist_file = Some ''AAPL 9.50\<newline>'',
         open_positions = held,
         trace = [Fetch_history ''AAPL'' 0, Append_watchlist ''AAPL 9.50\<newline>'']\<rparr>"
    by (simp add: add_to_watchlist_def get_watchlist_symbols_def load_symbols_empty
        aapl_queued_holding_def format_breakout_low Let_def)
  also have "remove_ticker_from_scanner ''AAPL'' \<dots>
      = \<lparr>scanner_file = Some [], watchlist_file = Some ''AAPL 9.50\<newline>'',
         open_positions = held,
         trace = [Fetch_history ''AAPL'' 0, Append_watchlist ''AAPL 9.50\<newline>'',
                  Write_scanner []]\<rparr>"
    by (simp add: remove_ticker_from_scanner_def Let_def eval_text)
  finally show ?thesis .
qed

lemma first_breakout_cycle:
  assumes "load_symbols positions = held" and "''AAPL'' \<notin> held"
  shows "cycle (breakout_cycle positions) (aapl_queued_holding held')
     = \<lparr>scanner_file = Some [], watchlist_file = Some ''AAPL 9.50\<newline>'',
        open_positions = held,
        trace = [Fetch_history ''AAPL'' 0, Append_watchlist ''AAPL 9.50\<newline>'',
                 Write_scanner []]\<rparr>"
proof -
  have "reload_positions (Some positions) (aapl_queued_holding held') = aapl_queued_holding held"
    using assms(1) by (simp add: reload_positions_def aapl_queued_holding_def)
  then show ?thesis
    using process_aapl [OF assms(2)] by (simp add: cycle_def breakout_cycle_def)
qed

lemma later_breakout_cycle:
  "cycle (breakout_cycle positions)
     \<lparr>scanner_file = Some [], watchlist_file = wl, open_positions = held, trace = tr\<rparr>
   = \<lparr>scanner_file = Some [], watchlist_file = wl, open_positions = load_symbols positions,
      trace = tr\<rparr>"
  by (simp add: cycle_def breakout_cycle_def reload_positions_def process_next_ticker_def
      get_first_ticker_from_scanner_def readlines_def)

lemma load_symbols_aapl: "load_symbols ''AAPL\<newline>'' = {''AAPL''}"
  by (simp add: load_symbols_def eval_text)

lemma load_symbols_msft: "load_symbols ''MSFT\<newline>'' = {''MSFT''}"
  by (simp add: load_symbols_def eval_text)

lemma load_symbols_aapl_line: "load_symbols ''AAPL 9.50\<newline>'' = {''AAPL''}"
  by (simp add: load_symbols_def eval_text)

text \<open>
  C1 as stated fails when the open positions change between two cycles: AAPL passes
  the validation while it is no open position and is added to the watchlist; in the
  next cycle the positions file names AAPL, and AAPL is an open position that is in
  the watchlist.
\<close>

theorem open_position_in_watchlist:
  "''AAPL'' \<in> open_positions
       (run [breakout_cycle [], breakout_cycle ''AAPL\<newline>''] (aapl_queued_holding {}))
   \<and> ''AAPL'' \<in> get_watchlist_symbols
       (run [breakout_cycle [], breakout_cycle ''AAPL\<newline>''] (aapl_queued_holding {}))"
proof -
  have "cycle (breakout_cycle []) (aapl_queued_holding {})
     = \<lparr>scanner_file = Some [], watchlist_file = Some ''AAPL 9.50\<newline>'',
        open_positions = {},
        trace = [Fetch_history ''AAPL'' 0, Append_watchlist ''AAPL 9.50\<newline>'',
                 Write_scanner []]\<rparr>"
    by (rule first_breakout_cycle) (simp_all add: load_symbols_empty)
  then have "run [breakout_cycle [], breakout_cycle ''AAPL\<newline>''] (aapl_queued_holding {})
     = \<lparr>scanner_file = Some [], watchlist_file = Some ''AAPL 9.50\<newline>'',
        open_positions = {''AAPL''},
        trace = [Fetch_history ''AAPL'' 0, Append_watchlist ''AAPL 9.50\<newline>'',
                 Write_scanner []]\<rparr>"
    by (simp add: later_breakout_cycle load_symbols_aapl)
  then show ?thesis
    by (simp add: get_watchlist_symbols_def load_symbols_aapl_line)
qed

theorem watchlist_avoids_fixed_open_positions_witness:
  "terminated (watchlist_file (aapl_queued_holding {''MSFT''}))
   \<and> get_watchlist_symbols (aapl_queued_holding {''MSFT''}) = {}
   \<and> list_all (positions_stay {''MSFT''}) [breakout_cycle ''MSFT\<newline>'', breakout_cycle ''MSFT\<newline>'']
   \<and> open_positions (run [breakout_cycle ''MSFT\<newline>'', breakout_cycle ''MSFT\<newline>'']
        (aapl_queued_holding {''MSFT''})) = {''MSFT''}
   \<and> get_watchlist_symbols (run [breakout_cycle ''MSFT\<newline>'', breakout_cycle ''MSFT\<newline>'']
        (aapl_queued_holding {''MSFT''})) = {''AAPL''}
   \<and> get_watchlist_symbols (run [breakout_cycle ''MSFT\<newline>'', breakout_cycle ''MSFT\<newline>'']
        (aapl_queued_holding {''MSFT''}))
      \<inter> open_positions (run [breakout_cycle ''MSFT\<newline>'', breakout_cycle ''MSFT\<newline>'']
        (aapl_queued_holding {''MSFT''})) = {}"
proof -
  let ?w = "aapl_queued_holding {''MSFT''}"
  let ?inps = "[breakout_cycle ''MSFT\<newline>'', breakout_cycle ''MSFT\<newline>'']"
  have o: "open_positions ?w = {''MSFT''}" by (simp add: aapl_queued_holding_def)
  have a: "terminated (watchlist_file ?w)"
    by (simp add: terminated_def aapl_queued_holding_def)
  have e: "get_watchlist_symbols ?w = {}"
    by (simp add: get_watchlist_symbols_def aapl_queued_holding_def load_symbols_empty)
  have b: "get_watchlist_symbols ?w \<inter> open_positions ?w = {}" using e by simp
  have s: "list_all (positions_stay {''MSFT''}) ?inps"
    by (simp add: positions_stay_def breakout_cycle_def load_symbols_msft)
  then have c: "list_all (positions_stay (open_positions ?w)) ?inps" by (simp only: o)
  note inst = watchlist_avoids_fixed_open_positions [OF a b c]
  have "cycle (breakout_cycle ''MSFT\<newline>'') ?w
     = \<lparr>scanner_file = Some [], watchlist_file = Some ''AAPL 9.50\<newline>'',
        open_positions = {''MSFT''},
        trace = [Fetch_history ''AAPL'' 0, Append_watchlist ''AAPL 9.50\<newline>'',
                 Write_scanner []]\<rparr>"
    by (rule first_breakout_cycle) (simp_all add: load_symbols_msft)
  then have "run ?inps ?w
     = \<lparr>scanner_file = Some [], watchlist_file = Some ''AAPL 9.50\<newline>'',
        open_positions = {''MSFT''},
        trace = [Fetch_history ''AAPL'' 0, Append_watchlist ''AAPL 9.50\<newline>'',
                 Write_scanner []]\<rparr>"
    by (simp add: later_breakout_cycle load_symbols_msft)
  then have g: "get_watchlist_symbols (run ?inps ?w) = {''AAPL''}"
    by (simp add: get_watchlist_symbols_def load_symbols_aapl_line)
  show ?thesis using a e s inst g o by simp
qed

end
